theory Spec2Isabelle
  imports Complex_Main "HOL-Library.Multiset" "HOL-Library.Char_ord" "HOL-Library.List_Lexorder"
begin

section \<open>Cells, series and errors\<close>

text \<open>
  The notebook \<^verbatim>\<open>4_feature_importance_analysis.ipynb\<close> computes with pandas objects.
  A cell of a frame is a float; the model takes the reals for the finite floats and
  \<open>None\<close> for NaN, the value pandas gives to \<open>0/0\<close>, to a label missing from a column,
  and to the mean of nothing. A series handed to the aggregator (the
  \<^verbatim>\<open>set_index('feature')['importance']\<close> of an importance table) is a list of
  labelled scores, in the order of its index.
\<close>

type_synonym cell = "real option"

type_synonym column = "cell list"

type_synonym series = "(string \<times> real) list"

datatype error = KeyError string | ValueError string

text \<open>Float subtraction: NaN on either side gives NaN.\<close>

fun fsub :: "cell \<Rightarrow> cell \<Rightarrow> cell" where
  "fsub (Some a) (Some b) = Some (a - b)"
| "fsub _ _ = None"

text \<open>
  Float division. Where the divisor of \<open>min_max_scale\<close> is zero its dividend is zero too
  (\<open>min_max_scale_zero_dividend\<close> below), and \<open>0/0\<close> is NaN; no infinity is reachable
  there, and none is part of a cell.
\<close>

fun fdiv :: "cell \<Rightarrow> cell \<Rightarrow> cell" where
  "fdiv (Some a) (Some b) = (if b = 0 then None else Some (a / b))"
| "fdiv _ _ = None"

text \<open>The values of a column that are not NaN (\<^verbatim>\<open>skipna=True\<close>, the default).\<close>

fun dropna :: "column \<Rightarrow> real list" where
  "dropna [] = []"
| "dropna (None # c) = dropna c"
| "dropna (Some x # c) = x # dropna c"

text \<open>\<^verbatim>\<open>x.min()\<close> and \<^verbatim>\<open>x.max()\<close>: NaN is skipped; NaN when nothing is left.\<close>

definition col_min :: "column \<Rightarrow> cell" where
  "col_min x = (if dropna x = [] then None else Some (Min (set (dropna x))))"

definition col_max :: "column \<Rightarrow> cell" where
  "col_max x = (if dropna x = [] then None else Some (Max (set (dropna x))))"

text \<open>\<^verbatim>\<open>.mean()\<close> of the cells of one row or one column: NaN is skipped.\<close>

definition nanmean :: "column \<Rightarrow> cell" where
  "nanmean x = (if dropna x = [] then None
                else Some (sum_list (dropna x) / real (length (dropna x))))"

section \<open>The consensus aggregator\<close>

text \<open>
  \<^verbatim>\<open>lambda x: (x - x.min())/(x.max()-x.min())\<close>, applied to one column.
\<close>

definition min_max_scale :: "column \<Rightarrow> column" where
  "min_max_scale x =
     map (\<lambda>v. fdiv (fsub v (col_min x)) (fsub (col_max x) (col_min x))) x"

text \<open>
  \<^verbatim>\<open>.drop('const')\<close> on a series: the rows with that label are removed; a label that is
  not in the index raises KeyError.
\<close>

definition drop_label :: "string \<Rightarrow> series \<Rightarrow> error + series" where
  "drop_label l s =
     (if l \<in> set (map fst s) then Inr (filter (\<lambda>kv. fst kv \<noteq> l) s)
      else Inl (KeyError l))"

text \<open>
  The index of \<^verbatim>\<open>pd.DataFrame({...})\<close> built from series: when all the indexes are
  equal, element by element, it is the first one; otherwise it is the union of the
  labels, without repetition, sorted.
\<close>

definition union_indexes :: "string list list \<Rightarrow> string list" where
  "union_indexes idxs =
     (if \<forall>i \<in> set idxs. i = hd idxs then hd idxs
      else sort (remdups (concat idxs)))"

text \<open>
  A series placed in a frame with index \<open>idx\<close>: kept as it is when its own index is
  \<open>idx\<close>, otherwise reindexed by label, a label it does not have giving NaN.
\<close>

definition align :: "series \<Rightarrow> string list \<Rightarrow> column" where
  "align s idx =
     (if map fst s = idx then map (\<lambda>kv. Some (snd kv)) s else map (map_of s) idx)"

record frame =
  index :: "string list"
  RandomForest :: column
  Permutation :: column
  SHAP :: column
  Regression :: column
  PCA_PC1 :: column
  PCA_PC2 :: column

text \<open>
  \<^verbatim>\<open>comparison = pd.DataFrame({'RandomForest': ..., ..., 'PCA_PC2': loadings['PC2']})\<close>.
  The regression series still has its \<^verbatim>\<open>const\<close> row, dropped here. Reindexing a series
  whose own index repeats a label raises ValueError.
\<close>

definition comparison ::
  "series \<Rightarrow> series \<Rightarrow> series \<Rightarrow> series \<Rightarrow> series \<Rightarrow> series \<Rightarrow> error + frame" where
  "comparison rf_importance perm_importance shap_importance coef_series pc1 pc2 =
     (case drop_label ''const'' coef_series of
        Inl e \<Rightarrow> Inl e
      | Inr reg \<Rightarrow>
          let cols = [rf_importance, perm_importance, shap_importance, reg, pc1, pc2];
              idx = union_indexes (map (map fst) cols)
          in if \<exists>s \<in> set cols. map fst s \<noteq> idx \<and> \<not> distinct (map fst s)
             then Inl (ValueError ''cannot reindex on an axis with duplicate labels'')
             else Inr \<lparr>index = idx,
                       RandomForest = align rf_importance idx,
                       Permutation = align perm_importance idx,
                       SHAP = align shap_importance idx,
                       Regression = align reg idx,
                       PCA_PC1 = align pc1 idx,
                       PCA_PC2 = align pc2 idx\<rparr>)"

text \<open>\<^verbatim>\<open>comparison_norm = comparison.apply(lambda x: ..., axis=0)\<close>: every column is scaled.\<close>

definition comparison_norm :: "frame \<Rightarrow> frame" where
  "comparison_norm f =
     \<lparr>index = index f,
      RandomForest = min_max_scale (RandomForest f),
      Permutation = min_max_scale (Permutation f),
      SHAP = min_max_scale (SHAP f),
      Regression = min_max_scale (Regression f),
      PCA_PC1 = min_max_scale (PCA_PC1 f),
      PCA_PC2 = min_max_scale (PCA_PC2 f)\<rparr>"

text \<open>
  \<^verbatim>\<open>comparison_norm[['RandomForest', 'Permutation', 'SHAP', 'Regression']].mean(axis=1)\<close>:
  the row mean of the four estimator columns.
\<close>

definition consensus :: "frame \<Rightarrow> column" where
  "consensus f =
     map (\<lambda>i. nanmean [RandomForest f ! i, Permutation f ! i, SHAP f ! i, Regression f ! i])
       [0..<length (index f)]"

text \<open>
  \<^verbatim>\<open>sort_values(ascending=False)\<close> puts the larger keys first and NaN last. Its default
  algorithm is quicksort, which is not stable, so the order of rows with equal keys is
  not fixed by the notebook. The sort is therefore a parameter of the model, and
  \<open>sorts_descending_by\<close> is all that is known of it; \<open>insort_desc\<close> is one such sort.
\<close>

definition nan_last_desc :: "cell \<Rightarrow> cell \<Rightarrow> bool" where
  "nan_last_desc a b =
     (case b of None \<Rightarrow> True | Some y \<Rightarrow> (case a of None \<Rightarrow> False | Some x \<Rightarrow> y \<le> x))"

definition sorts_descending_by :: "('a \<Rightarrow> cell) \<Rightarrow> ('a list \<Rightarrow> 'a list) \<Rightarrow> bool" where
  "sorts_descending_by key srt \<longleftrightarrow>
     (\<forall>xs. mset (srt xs) = mset xs \<and>
           sorted_wrt (\<lambda>a b. nan_last_desc (key a) (key b)) (srt xs))"

fun insert_desc :: "('a \<Rightarrow> cell) \<Rightarrow> 'a \<Rightarrow> 'a list \<Rightarrow> 'a list" where
  "insert_desc key a [] = [a]"
| "insert_desc key a (b # bs) =
     (if nan_last_desc (key a) (key b) then a # b # bs else b # insert_desc key a bs)"

definition insort_desc :: "('a \<Rightarrow> cell) \<Rightarrow> 'a list \<Rightarrow> 'a list" where
  "insort_desc key xs = foldr (insert_desc key) xs []"

text \<open>
  \<^verbatim>\<open>consensus_importance = comparison_norm['consensus'].sort_values(ascending=False)\<close>,
  from the six series that enter \<^verbatim>\<open>comparison\<close>.
\<close>

definition consensus_importance ::
  "((string \<times> cell) list \<Rightarrow> (string \<times> cell) list) \<Rightarrow>
   series \<Rightarrow> series \<Rightarrow> series \<Rightarrow> series \<Rightarrow> series \<Rightarrow> series \<Rightarrow> error + (string \<times> cell) list" where
  "consensus_importance srt rf_importance perm_importance shap_importance coef_series pc1 pc2 =
     (case comparison rf_importance perm_importance shap_importance coef_series pc1 pc2 of
        Inl e \<Rightarrow> Inl e
      | Inr f \<Rightarrow> Inr (srt (zip (index (comparison_norm f)) (consensus (comparison_norm f)))))"

text \<open>
  The min-max normalization in the words of the specification, for comparison with what
  the notebook computes: \<open>(x - min) / (max - min)\<close>, the minimum and the maximum taken
  over the scores of one estimator.
\<close>

definition spec_min_max :: "series \<Rightarrow> real \<Rightarrow> real" where
  "spec_min_max s x = (x - Min (snd ` set s)) / (Max (snd ` set s) - Min (snd ` set s))"

section \<open>The standardized-coefficient scorer\<close>

text \<open>
  \<^verbatim>\<open>model = sm.OLS(y, X_standardized).fit()\<close> is the call of a library; what the notebook
  reads from it, \<^verbatim>\<open>model.params\<close> and \<^verbatim>\<open>model.pvalues\<close>, is taken as given: one pair
  (coefficient, two-sided p-value) for each column of the design matrix, in the order of
  its columns, the intercept first.
\<close>

type_synonym ols_fit = "(real \<times> real) list"

record coef_row =
  feature :: string
  importance :: real
  p_value :: real

text \<open>
  \<^verbatim>\<open>pd.DataFrame({'feature': ['const'] + list(feature_names), 'importance': model.params,
  'p_value': model.pvalues}).sort_values('importance', key=abs, ascending=False)\<close>.
  A list of labels whose length is not that of the fit raises ValueError.
\<close>

definition abs_key :: "coef_row \<Rightarrow> cell" where
  "abs_key r = Some \<bar>importance r\<bar>"

definition coef_importance ::
  "(coef_row list \<Rightarrow> coef_row list) \<Rightarrow> string list \<Rightarrow> ols_fit \<Rightarrow> error + coef_row list" where
  "coef_importance srt feature_names model =
     (if length model = length (''const'' # feature_names)
      then Inr (srt (map (\<lambda>(f, c, p). \<lparr>feature = f, importance = c, p_value = p\<rparr>)
                      (zip (''const'' # feature_names) model)))
      else Inl (ValueError ''array length does not match index length''))"

text \<open>\<^verbatim>\<open>coef_importance.set_index('feature')['importance']\<close>, as the aggregator reads it.\<close>

definition importance_series :: "coef_row list \<Rightarrow> series" where
  "importance_series rows = map (\<lambda>r. (feature r, importance r)) rows"

section \<open>Means\<close>

text \<open>\<^verbatim>\<open>.mean()\<close> of one column of numbers: the mean of no value is NaN.\<close>

definition mean :: "real list \<Rightarrow> cell" where
  "mean xs = (if xs = [] then None else Some (sum_list xs / real (length xs)))"

section \<open>The risk-threshold deriver\<close>

text \<open>
  A row of \<^verbatim>\<open>df\<close> after the encoding of the second cell: \<^verbatim>\<open>smoker\<close> mapped to 1 and 0,
  \<^verbatim>\<open>sex\<close> and \<^verbatim>\<open>region\<close> replaced by their dummy columns.
\<close>

record policyholder =
  age :: int
  bmi :: real
  children :: int
  smoker :: int
  charges :: real
  sex_male :: bool
  region_northwest :: bool
  region_southeast :: bool
  region_southwest :: bool

text \<open>
  \<^verbatim>\<open>Series.quantile(q)\<close> with the default linear interpolation, for \<open>q\<close> between 0
  and 1 (the notebook passes 0.95): position \<open>q * (n - 1)\<close> in the sorted values,
  interpolated between its two neighbours; NaN for no value.
\<close>

definition quantile :: "real list \<Rightarrow> real \<Rightarrow> cell" where
  "quantile xs q =
     (if xs = [] then None
      else let s = sort xs;
               pos = q * real (length xs - 1);
               lo = nat \<lfloor>pos\<rfloor>
           in Some (if Suc lo < length xs
                    then s ! lo + (pos - real lo) * (s ! Suc lo - s ! lo)
                    else s ! lo))"

definition pc1_thresh :: "real list \<Rightarrow> cell" where
  "pc1_thresh pc1 = quantile pc1 (95 / 100)"

text \<open>A comparison with NaN is false.\<close>

fun fgt :: "cell \<Rightarrow> cell \<Rightarrow> bool" where
  "fgt (Some a) (Some b) = (b < a)"
| "fgt _ _ = False"

text \<open>
  \<^verbatim>\<open>high_pc1 = df[pca_df['PC1'] > pc1_thresh]\<close>: \<open>pc1\<close> holds the first column of
  \<^verbatim>\<open>X_pca\<close>, one score for each row of \<open>df\<close>, in the order of the rows.
\<close>

definition high_pc1 :: "policyholder list \<Rightarrow> real list \<Rightarrow> policyholder list" where
  "high_pc1 df pc1 =
     map fst (filter (\<lambda>(r, s). fgt (Some s) (pc1_thresh pc1)) (zip df pc1))"

text \<open>
  What the cell prints as recommendations, before formatting: the means of age, of BMI
  and of the charges in the group, and \<^verbatim>\<open>'yes' if high_pc1['smoker'].mean() > 0.5 else 'no'\<close>.
\<close>

record recommendation =
  age_threshold :: cell
  bmi_threshold :: cell
  smoker_rule :: string
  average_charges :: cell

definition recommend :: "policyholder list \<Rightarrow> real list \<Rightarrow> recommendation" where
  "recommend df pc1 =
     (let h = high_pc1 df pc1
      in \<lparr>age_threshold = mean (map (\<lambda>r. real_of_int (age r)) h),
          bmi_threshold = mean (map bmi h),
          smoker_rule = (if fgt (mean (map (\<lambda>r. real_of_int (smoker r)) h)) (Some (1 / 2))
                         then ''yes'' else ''no''),
          average_charges = mean (map charges h)\<rparr>)"

text \<open>
  The final rule: \<^verbatim>\<open>(df['age'] > 50) & (df['bmi'] > 35) & (df['smoker'] == 1) &
  (df['children'] < 3)\<close>, row by row.
\<close>

definition high_risk_mask :: "policyholder list \<Rightarrow> bool list" where
  "high_risk_mask df = map (\<lambda>r. age r > 50 \<and> bmi r > 35 \<and> smoker r = 1 \<and> children r < 3) df"

section \<open>Rounded arithmetic\<close>

text \<open>
  The sections above take the reals for the floats, which the properties stated of them
  bear. What lines 386 and 482 to 493 compute depends on the rounding itself, so their
  arithmetic is also given in binary64: a float is a real that the format holds, an
  infinity or NaN, and an operation returns its exact result rounded to the nearest
  float, to the one with the even significand when two are equally near, and to an
  infinity beyond the largest float. The two zeros are not told apart.
\<close>

datatype float64 = Fin real | PInf | NInf | NaN

text \<open>The integer nearest to \<open>y\<close>, the even one when two are equally near.\<close>

definition round_even :: "real \<Rightarrow> int" where
  "round_even y =
     (if y - of_int \<lfloor>y\<rfloor> < 1 / 2 then \<lfloor>y\<rfloor>
      else if 1 / 2 < y - of_int \<lfloor>y\<rfloor> then \<lfloor>y\<rfloor> + 1
      else if even \<lfloor>y\<rfloor> then \<lfloor>y\<rfloor> else \<lfloor>y\<rfloor> + 1)"

text \<open>
  The exponent \<open>e\<close> with \<open>2^e \<le> |x| < 2^(e+1)\<close>, and the spacing \<open>2^quantum\<close> of the floats
  there: 53 significant bits, and nothing finer than \<open>2^-1074\<close>.
\<close>

definition binade :: "real \<Rightarrow> int" where
  "binade x = \<lfloor>log 2 \<bar>x\<bar>\<rfloor>"

definition quantum :: "real \<Rightarrow> int" where
  "quantum x = max (binade x - 52) (- 1074)"


definition round_nearest_even :: "real \<Rightarrow> real" where
  "round_nearest_even x =
     (if x = 0 then 0
      else of_int (round_even (x / 2 powi quantum x)) * 2 powi quantum x)"

definition overflow_bound :: real where
  "overflow_bound = 2 ^ 1024"

definition fl_round :: "real \<Rightarrow> float64" where
  "fl_round x =
     (if overflow_bound \<le> round_nearest_even x then PInf
      else if round_nearest_even x \<le> - overflow_bound then NInf
      else Fin (round_nearest_even x))"


text \<open>Subtraction, addition and division of floats, with their special values.\<close>

fun fl_sub :: "float64 \<Rightarrow> float64 \<Rightarrow> float64" where
  "fl_sub (Fin a) (Fin b) = fl_round (a - b)"
| "fl_sub NaN _ = NaN"
| "fl_sub _ NaN = NaN"
| "fl_sub PInf PInf = NaN"
| "fl_sub NInf NInf = NaN"
| "fl_sub PInf _ = PInf"
| "fl_sub NInf _ = NInf"
| "fl_sub (Fin a) PInf = NInf"
| "fl_sub (Fin a) NInf = PInf"


fun fl_div :: "float64 \<Rightarrow> float64 \<Rightarrow> float64" where
  "fl_div (Fin a) (Fin b) =
     (if b = 0 then (if a = 0 then NaN else if 0 < a then PInf else NInf)
      else fl_round (a / b))"
| "fl_div NaN _ = NaN"
| "fl_div _ NaN = NaN"
| "fl_div (Fin a) _ = Fin 0"
| "fl_div PInf (Fin b) = (if b < 0 then NInf else PInf)"
| "fl_div NInf (Fin b) = (if b < 0 then PInf else NInf)"
| "fl_div _ _ = NaN"




text \<open>
  \<^verbatim>\<open>X_standardized = (X - X.mean()) / X.std()\<close>, column by column; a table is the list of
  its named columns. \<^verbatim>\<open>X.mean()\<close> and \<^verbatim>\<open>X.std()\<close> are reductions of pandas, whose order
  of summation, and with it their rounding, is the library's: their results, one float
  for each column label, are taken as given. The subtraction and the division are the
  float operations. The result is the table that \<^verbatim>\<open>sm.add_constant\<close> and \<^verbatim>\<open>sm.OLS\<close>
  receive.
\<close>

definition X_standardized ::
  "(string \<Rightarrow> float64) \<Rightarrow> (string \<Rightarrow> float64) \<Rightarrow> (string \<times> real list) list \<Rightarrow>
   (string \<times> float64 list) list" where
  "X_standardized X_mean X_std X =
     map (\<lambda>(name, xs). (name, map (\<lambda>x. fl_div (fl_sub (Fin x) (X_mean name)) (X_std name)) xs)) X"

section \<open>Facts about the descending sort\<close>

lemma nan_last_desc_total: "nan_last_desc a b \<or> nan_last_desc b a"
  by (auto simp: nan_last_desc_def split: option.splits)

lemma nan_last_desc_trans: "nan_last_desc a b \<Longrightarrow> nan_last_desc b c \<Longrightarrow> nan_last_desc a c"
  by (auto simp: nan_last_desc_def split: option.splits)

lemma mset_insert_desc: "mset (insert_desc key a xs) = add_mset a (mset xs)"
  by (induction xs) auto

lemma set_insert_desc: "set (insert_desc key a xs) = insert a (set xs)"
  by (induction xs) auto

lemma sorted_insert_desc:
  "sorted_wrt (\<lambda>a b. nan_last_desc (key a) (key b)) xs \<Longrightarrow>
   sorted_wrt (\<lambda>a b. nan_last_desc (key a) (key b)) (insert_desc key a xs)"
proof (induction xs)
  case Nil
  then show ?case by simp
next
  case (Cons b bs)
  show ?case
  proof (cases "nan_last_desc (key a) (key b)")
    case True
    with Cons.prems show ?thesis by (auto intro: nan_last_desc_trans)
  next
    case False
    then have "nan_last_desc (key b) (key a)" using nan_last_desc_total by blast
    with False Cons show ?thesis by (auto simp: set_insert_desc)
  qed
qed

lemma insort_desc_sorts: "sorts_descending_by key (insort_desc key)"
proof -
  have "mset (insort_desc key xs) = mset xs \<and>
        sorted_wrt (\<lambda>a b. nan_last_desc (key a) (key b)) (insort_desc key xs)" for xs
    by (induction xs) (simp_all add: insort_desc_def mset_insert_desc sorted_insert_desc)
  then show ?thesis by (simp add: sorts_descending_by_def)
qed

section \<open>Facts about columns\<close>

lemma set_dropna: "set (dropna x) = {v. Some v \<in> set x}"
  by (induction x rule: dropna.induct) auto

lemma length_min_max_scale: "length (min_max_scale x) = length x"
  by (simp add: min_max_scale_def)

lemma length_align: "length (align s idx) = length idx"
  by (auto simp: align_def dest: arg_cong[where f=length])

lemma min_max_scale_degenerate:
  assumes "col_min x = col_max x"
  shows "min_max_scale x = replicate (length x) None"
proof -
  have "fdiv (fsub v (col_min x)) (fsub (col_max x) (col_min x)) = None" for v
    using assms by (cases "col_max x"; cases v) simp_all
  then show ?thesis
    by (simp add: min_max_scale_def map_replicate_const)
qed

lemma col_min_max_constant:
  assumes "\<forall>v \<in> set x. v = None \<or> v = Some c"
  shows "col_min x = col_max x"
proof (cases "dropna x = []")
  case True
  then show ?thesis by (simp add: col_min_def col_max_def)
next
  case False
  have "set (dropna x) \<subseteq> {c}" using assms by (auto simp: set_dropna)
  moreover have "set (dropna x) \<noteq> {}" using False by simp
  ultimately have "set (dropna x) = {c}" by (cases "dropna x") auto
  then show ?thesis using False by (simp add: col_min_def col_max_def)
qed

lemma align_constant:
  assumes "\<forall>kv \<in> set s. snd kv = c"
  shows "\<forall>v \<in> set (align s idx). v = None \<or> v = Some c"
proof -
  have "map_of s k = None \<or> map_of s k = Some c" for k
  proof (cases "map_of s k")
    case None
    then show ?thesis by simp
  next
    case (Some v)
    then have "(k, v) \<in> set s" by (rule map_of_SomeD)
    with assms Some show ?thesis by auto
  qed
  with assms show ?thesis by (auto simp: align_def)
qed

lemma nanmean_skip:
  "nanmean [None, b, c, d] = nanmean [b, c, d]"
  "nanmean [a, None, c, d] = nanmean [a, c, d]"
  "nanmean [a, b, None, d] = nanmean [a, b, d]"
  "nanmean [a, b, c, None] = nanmean [a, b, c]"
  by (cases a; cases b; cases c; cases d; simp add: nanmean_def)+


section \<open>The consensus aggregator: a degenerate estimator\<close>

text \<open>
  C2, as the notebook computes it. When all the scores of one estimator are the same
  number, \<^verbatim>\<open>x.max() - x.min()\<close> is zero and so is every \<^verbatim>\<open>x - x.min()\<close>: the scaled
  column of that estimator is NaN in every row, not 0.5, and the row mean, which skips
  NaN, is the mean of the scaled scores of the other three estimators. This holds for
  each of the four estimators (for the regression, its scores without the intercept).
\<close>

theorem degenerate_estimator_is_skipped:
  assumes "comparison rf_importance perm_importance shap_importance coef_series pc1 pc2 = Inr f"
  shows
    "((\<forall>kv \<in> set rf_importance. snd kv = c) \<longrightarrow>
        RandomForest (comparison_norm f) = replicate (length (index f)) None \<and>
        consensus (comparison_norm f) =
          map (\<lambda>i. nanmean [Permutation (comparison_norm f) ! i, SHAP (comparison_norm f) ! i,
                             Regression (comparison_norm f) ! i]) [0..<length (index f)]) \<and>
     ((\<forall>kv \<in> set perm_importance. snd kv = c) \<longrightarrow>
        Permutation (comparison_norm f) = replicate (length (index f)) None \<and>
        consensus (comparison_norm f) =
          map (\<lambda>i. nanmean [RandomForest (comparison_norm f) ! i, SHAP (comparison_norm f) ! i,
                             Regression (comparison_norm f) ! i]) [0..<length (index f)]) \<and>
     ((\<forall>kv \<in> set shap_importance. snd kv = c) \<longrightarrow>
        SHAP (comparison_norm f) = replicate (length (index f)) None \<and>
        consensus (comparison_norm f) =
          map (\<lambda>i. nanmean [RandomForest (comparison_norm f) ! i, Permutation (comparison_norm f) ! i,
                             Regression (comparison_norm f) ! i]) [0..<length (index f)]) \<and>
     ((\<forall>kv \<in> set coef_series. fst kv \<noteq> ''const'' \<longrightarrow> snd kv = c) \<longrightarrow>
        Regression (comparison_norm f) = replicate (length (index f)) None \<and>
        consensus (comparison_norm f) =
          map (\<lambda>i. nanmean [RandomForest (comparison_norm f) ! i, Permutation (comparison_norm f) ! i,
                             SHAP (comparison_norm f) ! i]) [0..<length (index f)])"
proof -
  from assms obtain reg where reg: "drop_label ''const'' coef_series = Inr reg"
    by (auto simp: comparison_def split: sum.splits)
  from assms reg have f:
    "RandomForest f = align rf_importance (index f)"
    "Permutation f = align perm_importance (index f)"
    "SHAP f = align shap_importance (index f)"
    "Regression f = align reg (index f)"
    by (auto simp: comparison_def Let_def split: if_splits)
  have scaled: "min_max_scale (align s (index f)) = replicate (length (index f)) None"
    if "\<forall>kv \<in> set s. snd kv = c" for s
    using min_max_scale_degenerate[OF col_min_max_constant[OF align_constant[OF that]]]
    by (simp add: length_align)
  have regc: "\<forall>kv \<in> set reg. snd kv = c"
    if "\<forall>kv \<in> set coef_series. fst kv \<noteq> ''const'' \<longrightarrow> snd kv = c"
    using that reg by (fastforce simp: drop_label_def split: if_splits)
  have c1: "RandomForest (comparison_norm f) = replicate (length (index f)) None \<and>
        consensus (comparison_norm f) =
          map (\<lambda>i. nanmean [Permutation (comparison_norm f) ! i, SHAP (comparison_norm f) ! i,
                             Regression (comparison_norm f) ! i]) [0..<length (index f)]"
    if "\<forall>kv \<in> set rf_importance. snd kv = c"
    using scaled[OF that] by (simp add: comparison_norm_def consensus_def f nanmean_skip)
  have c2: "Permutation (comparison_norm f) = replicate (length (index f)) None \<and>
        consensus (comparison_norm f) =
          map (\<lambda>i. nanmean [RandomForest (comparison_norm f) ! i, SHAP (comparison_norm f) ! i,
                             Regression (comparison_norm f) ! i]) [0..<length (index f)]"
    if "\<forall>kv \<in> set perm_importance. snd kv = c"
    using scaled[OF that] by (simp add: comparison_norm_def consensus_def f nanmean_skip)
  have c3: "SHAP (comparison_norm f) = replicate (length (index f)) None \<and>
        consensus (comparison_norm f) =
          map (\<lambda>i. nanmean [RandomForest (comparison_norm f) ! i, Permutation (comparison_norm f) ! i,
                             Regression (comparison_norm f) ! i]) [0..<length (index f)]"
    if "\<forall>kv \<in> set shap_importance. snd kv = c"
    using scaled[OF that] by (simp add: comparison_norm_def consensus_def f nanmean_skip)
  have c4: "Regression (comparison_norm f) = replicate (length (index f)) None \<and>
        consensus (comparison_norm f) =
          map (\<lambda>i. nanmean [RandomForest (comparison_norm f) ! i, Permutation (comparison_norm f) ! i,
                             SHAP (comparison_norm f) ! i]) [0..<length (index f)]"
    if "\<forall>kv \<in> set coef_series. fst kv \<noteq> ''const'' \<longrightarrow> snd kv = c"
    using scaled[OF regc[OF that]] by (simp add: comparison_norm_def consensus_def f nanmean_skip)
  from c1 c2 c3 c4 show ?thesis by blast
qed



theorem degenerate_estimator_is_skipped_witness:
  "comparison [(''age'', 1/2), (''bmi'', 1/2)] [(''age'', 1/2), (''bmi'', 1/2)] [(''age'', 1/2), (''bmi'', 1/2)]
     [(''const'', 9), (''age'', 1/2), (''bmi'', 1/2)] [(''age'', 3/5), (''bmi'', 4/5)]
     [(''age'', 4/5), (''bmi'', -3/5)]
   = Inr \<lparr>index = [''age'', ''bmi''], RandomForest = [Some (1/2), Some (1/2)],
          Permutation = [Some (1/2), Some (1/2)], SHAP = [Some (1/2), Some (1/2)], Regression = [Some (1/2), Some (1/2)],
          PCA_PC1 = [Some (3/5), Some (4/5)], PCA_PC2 = [Some (4/5), Some (-3/5)]\<rparr> \<and>
   RandomForest (comparison_norm \<lparr>index = [''age'', ''bmi''], RandomForest = [Some (1/2), Some (1/2)],
          Permutation = [Some (1/2), Some (1/2)], SHAP = [Some (1/2), Some (1/2)], Regression = [Some (1/2), Some (1/2)],
          PCA_PC1 = [Some (3/5), Some (4/5)], PCA_PC2 = [Some (4/5), Some (-3/5)]\<rparr>)
   = [None, None] \<and>
   consensus (comparison_norm \<lparr>index = [''age'', ''bmi''], RandomForest = [Some (1/2), Some (1/2)],
          Permutation = [Some (1/2), Some (1/2)], SHAP = [Some (1/2), Some (1/2)], Regression = [Some (1/2), Some (1/2)],
          PCA_PC1 = [Some (3/5), Some (4/5)], PCA_PC2 = [Some (4/5), Some (-3/5)]\<rparr>)
   = [None, None]"
proof -
  have h: "comparison [(''age'', 1/2), (''bmi'', 1/2)] [(''age'', 1/2), (''bmi'', 1/2)]
     [(''age'', 1/2), (''bmi'', 1/2)] [(''const'', 9), (''age'', 1/2), (''bmi'', 1/2)]
     [(''age'', 3/5), (''bmi'', 4/5)] [(''age'', 4/5), (''bmi'', -3/5)]
   = Inr \<lparr>index = [''age'', ''bmi''], RandomForest = [Some (1/2), Some (1/2)],
          Permutation = [Some (1/2), Some (1/2)], SHAP = [Some (1/2), Some (1/2)], Regression = [Some (1/2), Some (1/2)],
          PCA_PC1 = [Some (3/5), Some (4/5)], PCA_PC2 = [Some (4/5), Some (-3/5)]\<rparr>"
    by (simp add: comparison_def drop_label_def union_indexes_def align_def)
  show ?thesis
    using h degenerate_estimator_is_skipped [OF h, of "1/2"]
    by (simp add: nanmean_def upt_rec)
qed

theorem constant_half_counterexample:
  "comparison [(''age'', 1/2), (''bmi'', 1/2)] [(''age'', 1), (''bmi'', 3)] [(''age'', 2), (''bmi'', 5)]
     [(''const'', 9), (''age'', -2), (''bmi'', 1)] [(''age'', 3/5), (''bmi'', 4/5)]
     [(''age'', 4/5), (''bmi'', -3/5)]
   = Inr \<lparr>index = [''age'', ''bmi''], RandomForest = [Some (1/2), Some (1/2)],
          Permutation = [Some 1, Some 3], SHAP = [Some 2, Some 5], Regression = [Some (-2), Some 1],
          PCA_PC1 = [Some (3/5), Some (4/5)], PCA_PC2 = [Some (4/5), Some (-3/5)]\<rparr> \<and>
   RandomForest (comparison_norm \<lparr>index = [''age'', ''bmi''], RandomForest = [Some (1/2), Some (1/2)],
          Permutation = [Some 1, Some 3], SHAP = [Some 2, Some 5], Regression = [Some (-2), Some 1],
          PCA_PC1 = [Some (3/5), Some (4/5)], PCA_PC2 = [Some (4/5), Some (-3/5)]\<rparr>)
   = [None, None] \<and>
   RandomForest (comparison_norm \<lparr>index = [''age'', ''bmi''], RandomForest = [Some (1/2), Some (1/2)],
          Permutation = [Some 1, Some 3], SHAP = [Some 2, Some 5], Regression = [Some (-2), Some 1],
          PCA_PC1 = [Some (3/5), Some (4/5)], PCA_PC2 = [Some (4/5), Some (-3/5)]\<rparr>)
   \<noteq> [Some (1/2), Some (1/2)] \<and>
   consensus (comparison_norm \<lparr>index = [''age'', ''bmi''], RandomForest = [Some (1/2), Some (1/2)],
          Permutation = [Some 1, Some 3], SHAP = [Some 2, Some 5], Regression = [Some (-2), Some 1],
          PCA_PC1 = [Some (3/5), Some (4/5)], PCA_PC2 = [Some (4/5), Some (-3/5)]\<rparr>)
   = [Some 0, Some 1]"
  by (simp add: comparison_def drop_label_def union_indexes_def align_def comparison_norm_def
      consensus_def min_max_scale_def col_min_def col_max_def nanmean_def upt_rec)

section \<open>Bounds of a column\<close>

lemma col_min_le_max:
  assumes "col_min x = Some mn" "col_max x = Some mx"
  shows "mn \<le> mx"
proof -
  from assms have ne: "dropna x \<noteq> []" by (auto simp: col_min_def split: if_splits)
  then have "Min (set (dropna x)) \<le> Max (set (dropna x))"
    by (metis List.finite_set Max_ge Min_in set_empty2)
  with assms ne show ?thesis by (simp add: col_min_def col_max_def)
qed

lemma col_min_max_some:
  assumes "Some a \<in> set x"
  obtains mn mx where "col_min x = Some mn" "col_max x = Some mx" "mn \<le> a" "a \<le> mx"
proof -
  from assms have a: "a \<in> set (dropna x)" by (simp add: set_dropna)
  then have ne: "dropna x \<noteq> []" by auto
  have "Min (set (dropna x)) \<le> a" "a \<le> Max (set (dropna x))" using a by simp_all
  with ne that show thesis by (simp add: col_min_def col_max_def)
qed

lemma min_max_scale_zero_dividend:
  assumes "v \<in> set x" "fsub (col_max x) (col_min x) = Some 0"
  shows "fsub v (col_min x) = Some 0 \<or> fsub v (col_min x) = None"
proof (cases v)
  case None
  then show ?thesis by simp
next
  case (Some a)
  with assms(1) have "Some a \<in> set x" by simp
  then obtain mn mx where m: "col_min x = Some mn" "col_max x = Some mx" "mn \<le> a" "a \<le> mx"
    by (rule col_min_max_some)
  with assms(2) have "mx = mn" by simp
  with m Some show ?thesis by simp
qed

section \<open>The risk-threshold deriver: selection and recommendations\<close>

lemma filter_zip_nths:
  "map fst (filter (\<lambda>(r, s). P s) (zip xs ys)) = nths xs {i. i < length ys \<and> P (ys ! i)}"
proof (induction xs arbitrary: ys)
  case Nil
  then show ?case by simp
next
  case (Cons x xs)
  show ?case
  proof (cases ys)
    case Nil
    then show ?thesis by simp
  next
    case (Cons y ys')
    with Cons.IH[of ys'] show ?thesis by (simp add: nths_Cons)
  qed
qed

lemma length_filter_zip:
  assumes "length xs = length ys"
  shows "length (filter (\<lambda>(r, s). P s) (zip xs ys)) = length (filter P ys)"
proof -
  have "filter P (map snd (zip xs ys)) = map snd (filter (\<lambda>(r, s). P s) (zip xs ys))"
    by (simp add: filter_map comp_def case_prod_unfold)
  with assms show ?thesis by (metis length_map map_snd_zip)
qed

lemma length_filter_sort:
  "length (filter P (sort xs)) = length (filter P (xs::real list))"
proof -
  have "mset (filter P (sort xs)) = mset (filter P xs)" by simp
  then show ?thesis by (metis size_mset)
qed

lemma count_above_sorted:
  assumes "sorted (s::real list)" "k < length s" "s ! k \<le> t"
  shows "length (filter (\<lambda>x. t < x) s) \<le> length s - Suc k"
proof -
  have "\<forall>x \<in> set (take (Suc k) s). \<not> t < x"
  proof
    fix x assume "x \<in> set (take (Suc k) s)"
    then obtain i where i: "i < Suc k" "i < length s" "x = s ! i"
      by (auto simp: in_set_conv_nth)
    with assms have "s ! i \<le> s ! k" by (intro sorted_nth_mono) simp_all
    with assms(3) i show "\<not> t < x" by simp
  qed
  then have "filter (\<lambda>x. t < x) (take (Suc k) s) = []" by (simp add: filter_empty_conv)
  moreover have "filter (\<lambda>x. t < x) s
      = filter (\<lambda>x. t < x) (take (Suc k) s) @ filter (\<lambda>x. t < x) (drop (Suc k) s)"
    by (metis append_take_drop_id filter_append)
  ultimately have "length (filter (\<lambda>x. t < x) s) = length (filter (\<lambda>x. t < x) (drop (Suc k) s))"
    by simp
  also have "\<dots> \<le> length (drop (Suc k) s)" by (rule length_filter_le)
  finally show ?thesis by simp
qed

lemma rank_in_range:
  assumes "0 \<le> q" "q \<le> 1" "0 < n"
  shows "nat \<lfloor>q * real (n - 1)\<rfloor> < n"
proof -
  have "q * real (n - 1) \<le> real (n - 1)" using assms by (simp add: mult_left_le_one_le)
  then have "\<lfloor>q * real (n - 1)\<rfloor> \<le> int (n - 1)" by (simp add: floor_le_iff)
  with assms(3) show ?thesis by linarith
qed

lemma quantile_between:
  assumes "0 \<le> q" "q \<le> 1" "xs \<noteq> []"
  shows "\<exists>t. quantile xs q = Some t \<and>
             sort xs ! nat \<lfloor>q * real (length xs - 1)\<rfloor> \<le> t \<and>
             (Suc (nat \<lfloor>q * real (length xs - 1)\<rfloor>) < length xs \<longrightarrow>
                t \<le> sort xs ! Suc (nat \<lfloor>q * real (length xs - 1)\<rfloor>))"
proof -
  define pos where "pos = q * real (length xs - 1)"
  define lo where "lo = nat \<lfloor>pos\<rfloor>"
  have qv: "quantile xs q =
      Some (if Suc lo < length xs
            then sort xs ! lo + (pos - real lo) * (sort xs ! Suc lo - sort xs ! lo)
            else sort xs ! lo)"
    unfolding quantile_def Let_def pos_def lo_def using assms(3) by simp
  have pos0: "0 \<le> pos" using assms by (simp add: pos_def)
  then have f0: "0 \<le> pos - real lo" unfolding lo_def by linarith
  have f1: "pos - real lo \<le> 1" unfolding lo_def using pos0 by linarith
  have "\<exists>t. quantile xs q = Some t \<and> sort xs ! lo \<le> t \<and>
             (Suc lo < length xs \<longrightarrow> t \<le> sort xs ! Suc lo)"
  proof (cases "Suc lo < length xs")
    case True
    then have le: "sort xs ! lo \<le> sort xs ! Suc lo"
      by (intro sorted_nth_mono) simp_all
    define d where "d = sort xs ! Suc lo - sort xs ! lo"
    have d0: "0 \<le> d" using le by (simp add: d_def)
    have "0 \<le> (pos - real lo) * d" using f0 d0 by simp
    moreover have "(pos - real lo) * d \<le> d" by (rule mult_left_le_one_le[OF d0 f0 f1])
    ultimately have "sort xs ! lo \<le> sort xs ! lo + (pos - real lo) * d"
      "sort xs ! lo + (pos - real lo) * d \<le> sort xs ! Suc lo"
      by (simp_all add: d_def)
    with True show ?thesis unfolding qv d_def by simp
  next
    case False
    then show ?thesis unfolding qv by simp
  qed
  then show ?thesis unfolding lo_def pos_def .
qed

lemma rank_bound:
  assumes "0 < n"
  shows "20 * (n - Suc (nat \<lfloor>(95 / 100) * real (n - 1)\<rfloor>)) \<le> n + 18"
proof -
  define m where "m = n - 1"
  define lo where "lo = nat \<lfloor>(95 / 100) * real m\<rfloor>"
  have "(95 / 100) * real m < real lo + 1" unfolding lo_def by linarith
  then have "real (19 * m) < real (20 * lo + 20)" by simp
  then have "19 * m < 20 * lo + 20" by (simp only: of_nat_less_iff)
  then have "20 * (m - lo) \<le> m + 19" by linarith
  moreover have "n - Suc lo = m - lo" "n + 18 = m + 19" using assms by (simp_all add: m_def)
  ultimately have "20 * (n - Suc lo) \<le> n + 18" by simp
  then show ?thesis unfolding lo_def m_def .
qed


lemma high_pc1_nths:
  "high_pc1 df pc1 = nths df {i. i < length pc1 \<and> fgt (Some (pc1 ! i)) (pc1_thresh pc1)}"
  unfolding high_pc1_def by (rule filter_zip_nths)

lemma fgt_Some_iff: "fgt (Some a) c \<longleftrightarrow> (\<exists>t. c = Some t \<and> t < a)"
  by (cases c) simp_all

lemma high_pc1_bound:
  assumes "length df = length pc1"
  shows "20 * length (high_pc1 df pc1) \<le> length df + 18"
proof (cases "pc1 = []")
  case True
  then show ?thesis by (simp add: high_pc1_def)
next
  case False
  define k where "k = nat \<lfloor>(95 / 100) * real (length pc1 - 1)\<rfloor>"
  from quantile_between[of "95 / 100" pc1] False
  obtain t where t: "pc1_thresh pc1 = Some t" "sort pc1 ! k \<le> t"
    unfolding pc1_thresh_def k_def by auto
  have "nat \<lfloor>(95 / 100) * real (length pc1 - 1)\<rfloor> < length pc1"
    using False by (intro rank_in_range) simp_all
  then have k: "k < length (sort pc1)"
    unfolding k_def by (simp only: length_sort)
  have "length (high_pc1 df pc1) = length (filter (\<lambda>(r, s). t < s) (zip df pc1))"
    by (simp add: high_pc1_def t)
  also have "\<dots> = length (filter (\<lambda>s. t < s) pc1)"
    by (rule length_filter_zip[OF assms])
  also have "\<dots> = length (filter (\<lambda>s. t < s) (sort pc1))"
    by (rule length_filter_sort[symmetric])
  also have "\<dots> \<le> length (sort pc1) - Suc k"
    by (rule count_above_sorted[OF _ k t(2)]) simp
  finally have "length (high_pc1 df pc1) \<le> length pc1 - Suc k" by simp
  moreover have "20 * (length pc1 - Suc k) \<le> length pc1 + 18"
    unfolding k_def using False by (intro rank_bound) simp
  ultimately show ?thesis using assms by linarith
qed

lemma high_pc1_constant:
  assumes "\<forall>s \<in> set pc1. s = c"
  shows "high_pc1 df pc1 = []"
proof (cases "pc1 = []")
  case True
  then show ?thesis by (simp add: high_pc1_def)
next
  case False
  define k where "k = nat \<lfloor>(95 / 100) * real (length pc1 - 1)\<rfloor>"
  from quantile_between[of "95 / 100" pc1] False
  obtain t where t: "pc1_thresh pc1 = Some t" "sort pc1 ! k \<le> t"
    unfolding pc1_thresh_def k_def by auto
  have "nat \<lfloor>(95 / 100) * real (length pc1 - 1)\<rfloor> < length pc1"
    using False by (intro rank_in_range) simp_all
  then have k: "k < length (sort pc1)"
    unfolding k_def by (simp only: length_sort)
  then have "sort pc1 ! k \<in> set (sort pc1)" by (rule nth_mem)
  with assms have "sort pc1 ! k = c" by simp
  with t(2) have "c \<le> t" by simp
  then have "\<forall>p \<in> set (zip df pc1). \<not> (case p of (r, s) \<Rightarrow> fgt (Some s) (pc1_thresh pc1))"
    using assms by (auto simp: t dest!: set_zip_rightD)
  then show ?thesis by (simp add: high_pc1_def filter_empty_conv)
qed

lemma smoker_sum:
  assumes "\<forall>r \<in> set h. smoker r = 0 \<or> smoker r = 1"
  shows "sum_list (map (\<lambda>r. real_of_int (smoker r)) h) = real (length (filter (\<lambda>r. smoker r = 1) h))
       \<and> length h = length (filter (\<lambda>r. smoker r = 1) h) + length (filter (\<lambda>r. smoker r = 0) h)"
  using assms by (induction h) auto

lemma smoker_majority:
  assumes "\<forall>r \<in> set h. smoker r = 0 \<or> smoker r = 1"
  shows "fgt (mean (map (\<lambda>r. real_of_int (smoker r)) h)) (Some (1 / 2)) \<longleftrightarrow>
         length (filter (\<lambda>r. smoker r = 0) h) < length (filter (\<lambda>r. smoker r = 1) h)"
proof (cases "h = []")
  case True
  then show ?thesis by (simp add: mean_def)
next
  case False
  define a where "a = length (filter (\<lambda>r. smoker r = 1) h)"
  define b where "b = length (filter (\<lambda>r. smoker r = 0) h)"
  from smoker_sum[OF assms] have s: "sum_list (map (\<lambda>r. real_of_int (smoker r)) h) = real a"
    and n: "length h = a + b" by (simp_all add: a_def b_def)
  from False have "0 < length h" by simp
  with n have "0 < a + b" by (simp only:)
  then have pos: "0 < real (a + b)" by (simp only: of_nat_0_less_iff)
  have "(1 / 2 < real a / real (a + b)) \<longleftrightarrow> (real (a + b) < 2 * real a)"
    using pos by (simp add: field_simps)
  also have "\<dots> \<longleftrightarrow> b < a" by auto
  finally show ?thesis using False by (simp add: mean_def s n a_def[symmetric] b_def[symmetric])
qed


text \<open>
  C4. The threshold is the 0.95 quantile of the PC1 scores, which lies between the two
  order statistics around rank \<open>0.95 * (n - 1)\<close>; \<^verbatim>\<open>high_pc1\<close> holds exactly the rows whose
  score is strictly above it, in their order; the recommended age and BMI cutoffs and the
  average charges are the means over these rows; the smoker recommendation is \<^verbatim>\<open>yes\<close>
  exactly when smokers are the strict majority of these rows, and \<^verbatim>\<open>no\<close> otherwise; and
  the final mask marks a row iff age > 50 and bmi > 35 and smoker = 1 and children < 3.
\<close>

theorem risk_threshold_deriver:
  "pc1_thresh pc1 = quantile pc1 (95 / 100) \<and>
   (pc1 \<noteq> [] \<longrightarrow>
      (\<exists>t. pc1_thresh pc1 = Some t \<and>
           sort pc1 ! nat \<lfloor>(95 / 100) * real (length pc1 - 1)\<rfloor> \<le> t \<and>
           (Suc (nat \<lfloor>(95 / 100) * real (length pc1 - 1)\<rfloor>) < length pc1 \<longrightarrow>
              t \<le> sort pc1 ! Suc (nat \<lfloor>(95 / 100) * real (length pc1 - 1)\<rfloor>)))) \<and>
   high_pc1 df pc1 = nths df {i. i < length pc1 \<and> (\<exists>t. pc1_thresh pc1 = Some t \<and> t < pc1 ! i)} \<and>
   age_threshold (recommend df pc1) = mean (map (\<lambda>r. real_of_int (age r)) (high_pc1 df pc1)) \<and>
   bmi_threshold (recommend df pc1) = mean (map bmi (high_pc1 df pc1)) \<and>
   average_charges (recommend df pc1) = mean (map charges (high_pc1 df pc1)) \<and>
   ((\<forall>r \<in> set (high_pc1 df pc1). smoker r = 0 \<or> smoker r = 1) \<longrightarrow>
      (smoker_rule (recommend df pc1) = ''yes'' \<longleftrightarrow>
         length (filter (\<lambda>r. smoker r = 0) (high_pc1 df pc1))
           < length (filter (\<lambda>r. smoker r = 1) (high_pc1 df pc1))) \<and>
      (smoker_rule (recommend df pc1) = ''no'' \<longleftrightarrow>
         length (filter (\<lambda>r. smoker r = 1) (high_pc1 df pc1))
           \<le> length (filter (\<lambda>r. smoker r = 0) (high_pc1 df pc1)))) \<and>
   length (high_risk_mask df) = length df \<and>
   (\<forall>i < length df.
      high_risk_mask df ! i \<longleftrightarrow>
        age (df ! i) > 50 \<and> bmi (df ! i) > 35 \<and> smoker (df ! i) = 1 \<and> children (df ! i) < 3)"
proof -
  have q: "pc1 \<noteq> [] \<longrightarrow>
      (\<exists>t. pc1_thresh pc1 = Some t \<and>
           sort pc1 ! nat \<lfloor>(95 / 100) * real (length pc1 - 1)\<rfloor> \<le> t \<and>
           (Suc (nat \<lfloor>(95 / 100) * real (length pc1 - 1)\<rfloor>) < length pc1 \<longrightarrow>
              t \<le> sort pc1 ! Suc (nat \<lfloor>(95 / 100) * real (length pc1 - 1)\<rfloor>)))"
    unfolding pc1_thresh_def using quantile_between[of "95 / 100" pc1] by simp
  have sel: "high_pc1 df pc1
      = nths df {i. i < length pc1 \<and> (\<exists>t. pc1_thresh pc1 = Some t \<and> t < pc1 ! i)}"
    by (simp only: high_pc1_nths fgt_Some_iff)
  have maj: "(smoker_rule (recommend df pc1) = ''yes'' \<longleftrightarrow>
         length (filter (\<lambda>r. smoker r = 0) (high_pc1 df pc1))
           < length (filter (\<lambda>r. smoker r = 1) (high_pc1 df pc1))) \<and>
      (smoker_rule (recommend df pc1) = ''no'' \<longleftrightarrow>
         length (filter (\<lambda>r. smoker r = 1) (high_pc1 df pc1))
           \<le> length (filter (\<lambda>r. smoker r = 0) (high_pc1 df pc1)))"
    if "\<forall>r \<in> set (high_pc1 df pc1). smoker r = 0 \<or> smoker r = 1"
    using smoker_majority[OF that] by (auto simp: recommend_def Let_def)
  have rec: "age_threshold (recommend df pc1) = mean (map (\<lambda>r. real_of_int (age r)) (high_pc1 df pc1))"
    "bmi_threshold (recommend df pc1) = mean (map bmi (high_pc1 df pc1))"
    "average_charges (recommend df pc1) = mean (map charges (high_pc1 df pc1))"
    by (simp_all add: recommend_def Let_def)
  have mask: "length (high_risk_mask df) = length df"
    "\<forall>i < length df.
      high_risk_mask df ! i \<longleftrightarrow>
        age (df ! i) > 50 \<and> bmi (df ! i) > 35 \<and> smoker (df ! i) = 1 \<and> children (df ! i) < 3"
    by (simp_all add: high_risk_mask_def)
  have th: "pc1_thresh pc1 = quantile pc1 (95 / 100)" by (simp add: pc1_thresh_def)
  from th q sel rec maj mask show ?thesis by blast
qed

theorem risk_threshold_deriver_witness:
  "[- 1, 1 :: real] \<noteq> [] \<and>
   pc1_thresh [- 1, 1] = Some (9 / 10) \<and>
   high_pc1 [\<lparr>age = 30, bmi = 25, children = 0, smoker = 0, charges = 1000, sex_male = False,
        region_northwest = False, region_southeast = False, region_southwest = False\<rparr>,
      \<lparr>age = 60, bmi = 40, children = 1, smoker = 1, charges = 9000, sex_male = True,
        region_northwest = False, region_southeast = True, region_southwest = False\<rparr>] [- 1, 1]
   = [\<lparr>age = 60, bmi = 40, children = 1, smoker = 1, charges = 9000, sex_male = True,
        region_northwest = False, region_southeast = True, region_southwest = False\<rparr>] \<and>
   list_all (\<lambda>r. smoker r = 0 \<or> smoker r = 1) (high_pc1 [\<lparr>age = 30, bmi = 25, children = 0, smoker = 0, charges = 1000, sex_male = False,
        region_northwest = False, region_southeast = False, region_southwest = False\<rparr>,
      \<lparr>age = 60, bmi = 40, children = 1, smoker = 1, charges = 9000, sex_male = True,
        region_northwest = False, region_southeast = True, region_southwest = False\<rparr>] [- 1, 1]) \<and>
   recommend [\<lparr>age = 30, bmi = 25, children = 0, smoker = 0, charges = 1000, sex_male = False,
        region_northwest = False, region_southeast = False, region_southwest = False\<rparr>,
      \<lparr>age = 60, bmi = 40, children = 1, smoker = 1, charges = 9000, sex_male = True,
        region_northwest = False, region_southeast = True, region_southwest = False\<rparr>] [- 1, 1]
   = \<lparr>age_threshold = Some 60, bmi_threshold = Some 40, smoker_rule = ''yes'',
      average_charges = Some 9000\<rparr> \<and>
   (1 :: nat) < length [\<lparr>age = 30, bmi = 25, children = 0, smoker = 0, charges = 1000, sex_male = False,
        region_northwest = False, region_southeast = False, region_southwest = False\<rparr>,
      \<lparr>age = 60, bmi = 40, children = 1, smoker = 1, charges = 9000, sex_male = True,
        region_northwest = False, region_southeast = True, region_southwest = False\<rparr>] \<and>
   high_risk_mask [\<lparr>age = 30, bmi = 25, children = 0, smoker = 0, charges = 1000, sex_male = False,
        region_northwest = False, region_southeast = False, region_southwest = False\<rparr>,
      \<lparr>age = 60, bmi = 40, children = 1, smoker = 1, charges = 9000, sex_male = True,
        region_northwest = False, region_southeast = True, region_southwest = False\<rparr>] ! 1"
proof -
  have h: "high_pc1 [\<lparr>age = 30, bmi = 25, children = 0, smoker = 0, charges = 1000, sex_male = False,
        region_northwest = False, region_southeast = False, region_southwest = False\<rparr>,
      \<lparr>age = 60, bmi = 40, children = 1, smoker = 1, charges = 9000, sex_male = True,
        region_northwest = False, region_southeast = True, region_southwest = False\<rparr>] [- 1, 1]
   = [\<lparr>age = 60, bmi = 40, children = 1, smoker = 1, charges = 9000, sex_male = True,
        region_northwest = False, region_southeast = True, region_southwest = False\<rparr>]"
    by (simp add: high_pc1_def pc1_thresh_def quantile_def)
  have m: "mean [60] = Some 60" "mean [40] = Some 40" "mean [9000] = Some 9000"
    by (simp_all add: mean_def)
  have t: "pc1_thresh [- 1, 1] = Some (9 / 10)"
    by (simp add: pc1_thresh_def quantile_def)
  show ?thesis
    using risk_threshold_deriver [of "[- 1, 1]" "[\<lparr>age = 30, bmi = 25, children = 0, smoker = 0, charges = 1000, sex_male = False,
        region_northwest = False, region_southeast = False, region_southwest = False\<rparr>,
      \<lparr>age = 60, bmi = 40, children = 1, smoker = 1, charges = 9000, sex_male = True,
        region_northwest = False, region_southeast = True, region_southwest = False\<rparr>]"]
    by (simp add: h m t)
qed


text \<open>
  C10, as the notebook computes it. With \<open>n\<close> rows the rows strictly above the
  interpolated 0.95 quantile are at most \<open>(n - 1) / 20\<close> rounded up, that is
  \<open>20 * k \<le> n + 18\<close>; this can exceed 5 percent of \<open>n\<close>. When all the PC1 scores are
  equal no row is selected, and the recommended cutoffs and the average charges are
  means of nothing: NaN, with \<^verbatim>\<open>no\<close> for the smoker, and nothing raised.
\<close>

theorem high_pc1_size_bound:
  assumes "length df = length pc1"
  shows "20 * length (high_pc1 df pc1) \<le> length df + 18 \<and>
         ((\<forall>s \<in> set pc1. s = c) \<longrightarrow>
            high_pc1 df pc1 = [] \<and>
            recommend df pc1 = \<lparr>age_threshold = None, bmi_threshold = None,
                                 smoker_rule = ''no'', average_charges = None\<rparr>)"
proof -
  have "recommend df pc1 = \<lparr>age_threshold = None, bmi_threshold = None,
                            smoker_rule = ''no'', average_charges = None\<rparr>"
    if "high_pc1 df pc1 = []"
    using that by (simp add: recommend_def mean_def)
  with high_pc1_bound[OF assms] high_pc1_constant[of pc1 c df] show ?thesis by blast
qed

theorem high_pc1_size_bound_witness:
  "length [\<lparr>age = 30, bmi = 25, children = 0, smoker = 0, charges = 0000, sex_male = False,
        region_northwest = False, region_southeast = False, region_southwest = False\<rparr>,
      \<lparr>age = 60, bmi = 40, children = 1, smoker = 1, charges = 9000, sex_male = True,
        region_northwest = False, region_southeast = True, region_southwest = False\<rparr>] = length [0, 0 :: real] \<and>
   list_all (\<lambda>s. s = 0) [0, 0 :: real] \<and>
   20 * length (high_pc1 [\<lparr>age = 30, bmi = 25, children = 0, smoker = 0, charges = 0000, sex_male = False,
        region_northwest = False, region_southeast = False, region_southwest = False\<rparr>,
      \<lparr>age = 60, bmi = 40, children = 1, smoker = 1, charges = 9000, sex_male = True,
        region_northwest = False, region_southeast = True, region_southwest = False\<rparr>] [0, 0]) \<le> length [\<lparr>age = 30, bmi = 25, children = 0, smoker = 0, charges = 0000, sex_male = False,
        region_northwest = False, region_southeast = False, region_southwest = False\<rparr>,
      \<lparr>age = 60, bmi = 40, children = 1, smoker = 1, charges = 9000, sex_male = True,
        region_northwest = False, region_southeast = True, region_southwest = False\<rparr>] + 18 \<and>
   high_pc1 [\<lparr>age = 30, bmi = 25, children = 0, smoker = 0, charges = 0000, sex_male = False,
        region_northwest = False, region_southeast = False, region_southwest = False\<rparr>,
      \<lparr>age = 60, bmi = 40, children = 1, smoker = 1, charges = 9000, sex_male = True,
        region_northwest = False, region_southeast = True, region_southwest = False\<rparr>] [0, 0] = [] \<and>
   recommend [\<lparr>age = 30, bmi = 25, children = 0, smoker = 0, charges = 0000, sex_male = False,
        region_northwest = False, region_southeast = False, region_southwest = False\<rparr>,
      \<lparr>age = 60, bmi = 40, children = 1, smoker = 1, charges = 9000, sex_male = True,
        region_northwest = False, region_southeast = True, region_southwest = False\<rparr>] [0, 0]
   = \<lparr>age_threshold = None, bmi_threshold = None, smoker_rule = ''no'', average_charges = None\<rparr>"
proof -
  have h: "length [\<lparr>age = 30, bmi = 25, children = 0, smoker = 0, charges = 0000, sex_male = False,
        region_northwest = False, region_southeast = False, region_southwest = False\<rparr>,
      \<lparr>age = 60, bmi = 40, children = 1, smoker = 1, charges = 9000, sex_male = True,
        region_northwest = False, region_southeast = True, region_southwest = False\<rparr>] = length [0, 0 :: real]" by simp
  show ?thesis
    using high_pc1_size_bound [OF h, of 0] by simp
qed

theorem five_percent_counterexample:
  "high_pc1 [\<lparr>age = 30, bmi = 25, children = 0, smoker = 0, charges = 1000, sex_male = False,
        region_northwest = False, region_southeast = False, region_southwest = False\<rparr>,
      \<lparr>age = 60, bmi = 40, children = 1, smoker = 1, charges = 9000, sex_male = True,
        region_northwest = False, region_southeast = True, region_southwest = False\<rparr>] [- 1, 1]
   = [\<lparr>age = 60, bmi = 40, children = 1, smoker = 1, charges = 9000, sex_male = True,
        region_northwest = False, region_southeast = True, region_southwest = False\<rparr>] \<and>
   \<not> real (length (high_pc1 [\<lparr>age = 30, bmi = 25, children = 0, smoker = 0, charges = 1000, sex_male = False,
        region_northwest = False, region_southeast = False, region_southwest = False\<rparr>,
      \<lparr>age = 60, bmi = 40, children = 1, smoker = 1, charges = 9000, sex_male = True,
        region_northwest = False, region_southeast = True, region_southwest = False\<rparr>] [- 1, 1]))
     \<le> (5 / 100) * real (length [\<lparr>age = 30, bmi = 25, children = 0, smoker = 0, charges = 1000, sex_male = False,
        region_northwest = False, region_southeast = False, region_southwest = False\<rparr>,
      \<lparr>age = 60, bmi = 40, children = 1, smoker = 1, charges = 9000, sex_male = True,
        region_northwest = False, region_southeast = True, region_southwest = False\<rparr>])"
  by (simp add: high_pc1_def pc1_thresh_def quantile_def)


section \<open>The standardized-coefficient scorer: what it returns\<close>

text \<open>
  C5, as the notebook computes it. Given the fit of the regression on the
  intercept-augmented standardized design matrix, the scorer returns one row for each
  column of that matrix, the intercept \<^verbatim>\<open>const\<close> included: the label, the fitted
  coefficient with its sign as the importance, and its p-value; the rows are in
  descending order of the absolute value of the coefficient. A list of labels of another
  length than the fit raises ValueError.
\<close>

theorem coef_importance_rows:
  assumes "sorts_descending_by abs_key srt"
  shows "(length model = Suc (length feature_names) \<longrightarrow>
           (\<exists>rows. coef_importance srt feature_names model = Inr rows \<and>
              mset (map feature rows) = mset (''const'' # feature_names) \<and>
              (\<forall>r \<in> set rows. \<exists>i < length model.
                 feature r = (''const'' # feature_names) ! i \<and>
                 importance r = fst (model ! i) \<and> p_value r = snd (model ! i)) \<and>
              sorted_wrt (\<lambda>a b. \<bar>importance b\<bar> \<le> \<bar>importance a\<bar>) rows)) \<and>
         (length model \<noteq> Suc (length feature_names) \<longrightarrow>
           (\<exists>msg. coef_importance srt feature_names model = Inl (ValueError msg)))"
proof -
  define g :: "string \<times> real \<times> real \<Rightarrow> coef_row"
    where "g = (\<lambda>(f, c, p). \<lparr>feature = f, importance = c, p_value = p\<rparr>)"
  define names where "names = ''const'' # feature_names"
  define rows where "rows = srt (map g (zip names model))"
  from assms have perm: "mset rows = mset (map g (zip names model))"
    and srt: "sorted_wrt (\<lambda>a b. nan_last_desc (abs_key a) (abs_key b)) rows"
    by (simp_all add: sorts_descending_by_def rows_def)
  have fg: "feature (g z) = fst z" "importance (g z) = fst (snd z)" "p_value (g z) = snd (snd z)" for z
    by (simp_all add: g_def case_prod_unfold)
  have res: "coef_importance srt feature_names model = Inr rows"
    if "length model = Suc (length feature_names)"
    using that by (simp add: coef_importance_def rows_def g_def names_def)
  have keys: "mset (map feature rows) = mset names"
    if "length model = Suc (length feature_names)"
  proof -
    have "mset (map feature rows) = image_mset feature (mset rows)" by simp
    also have "\<dots> = mset (map feature (map g (zip names model)))" by (simp only: perm mset_map)
    also have "map feature (map g (zip names model)) = map fst (zip names model)"
      by (simp add: fg comp_def)
    also have "\<dots> = names" using that by (simp add: names_def)
    finally show ?thesis .
  qed
  have each: "\<exists>i < length model. feature r = names ! i \<and>
                 importance r = fst (model ! i) \<and> p_value r = snd (model ! i)"
    if "r \<in> set rows" for r
  proof -
    from that perm have "r \<in> set (map g (zip names model))" by (metis set_mset_mset)
    then obtain z where z: "z \<in> set (zip names model)" "r = g z" by auto
    then obtain i where "i < length names" "i < length model" "z = (names ! i, model ! i)"
      by (auto simp: in_set_zip)
    with z show ?thesis by (auto simp: fg)
  qed
  have sorted: "sorted_wrt (\<lambda>a b. \<bar>importance b\<bar> \<le> \<bar>importance a\<bar>) rows"
    using srt by (simp add: nan_last_desc_def abs_key_def)
  have err: "\<exists>msg. coef_importance srt feature_names model = Inl (ValueError msg)"
    if "length model \<noteq> Suc (length feature_names)"
    using that by (simp add: coef_importance_def)
  from res keys each sorted err show ?thesis unfolding names_def by blast
qed

theorem coef_importance_rows_witness:
  "sorts_descending_by abs_key (insort_desc abs_key) \<and>
   length [(10, 1 / 1000), (- 3, 1 / 50 :: real)] = Suc (length [''age'']) \<and>
   coef_importance (insort_desc abs_key) [''age''] [(10, 1 / 1000), (- 3, 1 / 50)]
   = Inr [\<lparr>feature = ''const'', importance = 10, p_value = 1 / 1000\<rparr>,
          \<lparr>feature = ''age'', importance = - 3, p_value = 1 / 50\<rparr>] \<and>
   mset (map feature [\<lparr>feature = ''const'', importance = 10, p_value = 1 / 1000\<rparr>,
          \<lparr>feature = ''age'', importance = - 3, p_value = 1 / 50\<rparr>])
   = mset [''const'', ''age'']"
proof -
  have e: "coef_importance (insort_desc abs_key) [''age''] [(10, 1 / 1000), (- 3, 1 / 50)]
   = Inr [\<lparr>feature = ''const'', importance = 10, p_value = 1 / 1000\<rparr>,
          \<lparr>feature = ''age'', importance = - 3, p_value = 1 / 50\<rparr>]"
    by (simp add: coef_importance_def insort_desc_def abs_key_def nan_last_desc_def)
  show ?thesis
    using coef_importance_rows [OF insort_desc_sorts, of "[(10, 1 / 1000), (- 3, 1 / 50)]" "[''age'']"]
      insort_desc_sorts [of abs_key] e
    by simp
qed

theorem absolute_value_no_intercept_counterexample:
  "coef_importance (insort_desc abs_key) [''age''] [(10, 1 / 1000), (- 3, 1 / 50)]
   = Inr [\<lparr>feature = ''const'', importance = 10, p_value = 1 / 1000\<rparr>,
          \<lparr>feature = ''age'', importance = - 3, p_value = 1 / 50\<rparr>] \<and>
   importance \<lparr>feature = ''age'', importance = - 3, p_value = 1 / 50\<rparr> \<noteq> \<bar>- 3\<bar> \<and>
   ''const'' \<notin> set [''age'']"
  by (simp add: coef_importance_def insort_desc_def abs_key_def nan_last_desc_def)

section \<open>The frame built by the aggregator\<close>

lemma set_union_indexes:
  assumes "idxs \<noteq> []"
  shows "set (union_indexes idxs) = (\<Union>i \<in> set idxs. set i)"
proof (cases "\<forall>i \<in> set idxs. i = hd idxs")
  case True
  from assms have h: "hd idxs \<in> set idxs" by simp
  have e: "set i = set (hd idxs)" if "i \<in> set idxs" for i
    using bspec[OF True that] by (rule arg_cong)
  have "(\<Union>i \<in> set idxs. set i) = set (hd idxs)"
  proof
    show "(\<Union>i \<in> set idxs. set i) \<subseteq> set (hd idxs)"
    proof (rule UN_least)
      fix i assume "i \<in> set idxs"
      then show "set i \<subseteq> set (hd idxs)" by (rule equalityD1[OF e])
    qed
    show "set (hd idxs) \<subseteq> (\<Union>i \<in> set idxs. set i)" using h by (rule UN_upper)
  qed
  moreover have "union_indexes idxs = hd idxs"
    unfolding union_indexes_def by (rule if_P[OF True])
  ultimately show ?thesis by (simp only:)
next
  case False
  have "union_indexes idxs = sort (remdups (concat idxs))"
    unfolding union_indexes_def by (rule if_not_P[OF False])
  then show ?thesis by simp
qed

lemma distinct_union_indexes:
  assumes "idxs \<noteq> []" "\<forall>i \<in> set idxs. distinct i"
  shows "distinct (union_indexes idxs)"
proof (cases "\<forall>i \<in> set idxs. i = hd idxs")
  case True
  from assms have "distinct (hd idxs)" by simp
  moreover have "union_indexes idxs = hd idxs"
    unfolding union_indexes_def by (rule if_P[OF True])
  ultimately show ?thesis by (simp only:)
next
  case False
  have "union_indexes idxs = sort (remdups (concat idxs))"
    unfolding union_indexes_def by (rule if_not_P[OF False])
  then show ?thesis by simp
qed

lemma map_of_distinct_fst:
  assumes "distinct (map fst s)" "kv \<in> set s"
  shows "map_of s (fst kv) = Some (snd kv)"
  using assms by (cases kv) simp

lemma align_distinct:
  assumes "distinct (map fst s)"
  shows "align s idx = map (map_of s) idx"
proof (cases "map fst s = idx")
  case True
  have "map (\<lambda>kv. Some (snd kv)) s = map (\<lambda>kv. map_of s (fst kv)) s"
    using assms by (intro map_cong refl) (simp add: map_of_distinct_fst)
  also have "\<dots> = map (map_of s) (map fst s)" by (simp add: comp_def)
  finally show ?thesis using True by (simp add: align_def)
next
  case False
  then show ?thesis by (simp add: align_def)
qed

lemma comparison_distinct:
  assumes "''const'' \<in> fst ` set coef"
    and "\<forall>s \<in> set [rf, perm, shap, coef, pc1, pc2]. distinct (map fst s)"
  shows "\<exists>idx. comparison rf perm shap coef pc1 pc2 =
           Inr \<lparr>index = idx,
                RandomForest = map (map_of rf) idx,
                Permutation = map (map_of perm) idx,
                SHAP = map (map_of shap) idx,
                Regression = map (map_of (filter (\<lambda>kv. fst kv \<noteq> ''const'') coef)) idx,
                PCA_PC1 = map (map_of pc1) idx,
                PCA_PC2 = map (map_of pc2) idx\<rparr> \<and>
           distinct idx \<and>
           set idx = fst ` set rf \<union> fst ` set perm \<union> fst ` set shap \<union>
                     (fst ` set coef - {''const''}) \<union> fst ` set pc1 \<union> fst ` set pc2"
proof -
  define reg where "reg = filter (\<lambda>kv. fst kv \<noteq> ''const'') coef"
  define idx where "idx = union_indexes (map (map fst) [rf, perm, shap, reg, pc1, pc2])"
  have d: "distinct (map fst rf)" "distinct (map fst perm)" "distinct (map fst shap)"
    "distinct (map fst coef)" "distinct (map fst pc1)" "distinct (map fst pc2)"
    using assms(2) by simp_all
  have dreg: "distinct (map fst reg)"
    unfolding reg_def using d(4) by (rule distinct_map_filter)
  have dl: "drop_label ''const'' coef = Inr reg"
    using assms(1) by (simp add: drop_label_def reg_def)
  have nodup: "\<not> (\<exists>s \<in> set [rf, perm, shap, reg, pc1, pc2].
      map fst s \<noteq> idx \<and> \<not> distinct (map fst s))"
    using d dreg by simp
  have A: "comparison rf perm shap coef pc1 pc2 =
           Inr \<lparr>index = idx,
                RandomForest = map (map_of rf) idx,
                Permutation = map (map_of perm) idx,
                SHAP = map (map_of shap) idx,
                Regression = map (map_of reg) idx,
                PCA_PC1 = map (map_of pc1) idx,
                PCA_PC2 = map (map_of pc2) idx\<rparr>"
    unfolding comparison_def dl sum.case Let_def idx_def[symmetric]
    using nodup by (simp only: if_False align_distinct d dreg)
  have B: "distinct idx"
    unfolding idx_def using d dreg by (intro distinct_union_indexes) simp_all
  have "fst ` set reg = fst ` set coef - {''const''}" by (auto simp: reg_def)
  then have C: "set idx = fst ` set rf \<union> fst ` set perm \<union> fst ` set shap \<union>
                     (fst ` set coef - {''const''}) \<union> fst ` set pc1 \<union> fst ` set pc2"
    unfolding idx_def by (simp add: set_union_indexes Un_assoc)
  from A B C have "comparison rf perm shap coef pc1 pc2 =
           Inr \<lparr>index = idx,
                RandomForest = map (map_of rf) idx,
                Permutation = map (map_of perm) idx,
                SHAP = map (map_of shap) idx,
                Regression = map (map_of (filter (\<lambda>kv. fst kv \<noteq> ''const'') coef)) idx,
                PCA_PC1 = map (map_of pc1) idx,
                PCA_PC2 = map (map_of pc2) idx\<rparr> \<and>
           distinct idx \<and>
           set idx = fst ` set rf \<union> fst ` set perm \<union> fst ` set shap \<union>
                     (fst ` set coef - {''const''}) \<union> fst ` set pc1 \<union> fst ` set pc2"
    unfolding reg_def by (intro conjI)
  then show ?thesis by (rule exI[of _ idx])
qed

lemma length_consensus: "length (consensus f) = length (index f)"
  by (simp add: consensus_def)

lemma sorted_series_keys:
  assumes "sorts_descending_by snd srt" "length vs = length idx"
  shows "mset (srt (zip idx vs)) = mset (zip idx vs)"
    and "mset (map fst (srt (zip idx vs))) = mset idx"
    and "sorted_wrt (\<lambda>a b. nan_last_desc (snd a) (snd b)) (srt (zip idx vs))"
proof -
  from assms(1) show p: "mset (srt (zip idx vs)) = mset (zip idx vs)"
    and "sorted_wrt (\<lambda>a b. nan_last_desc (snd a) (snd b)) (srt (zip idx vs))"
    by (simp_all add: sorts_descending_by_def)
  have "mset (map fst (srt (zip idx vs))) = image_mset fst (mset (srt (zip idx vs)))" by simp
  also have "\<dots> = mset (map fst (zip idx vs))" by (simp only: p mset_map)
  also have "map fst (zip idx vs) = idx" using assms(2) by simp
  finally show "mset (map fst (srt (zip idx vs))) = mset idx" .
qed

text \<open>
  C7, as the notebook computes it. The aggregator never compares key sets. The only
  label it looks for is \<^verbatim>\<open>const\<close> in the regression series, whose absence raises
  KeyError. Given series without repeated labels it returns a result whatever their key
  sets are, and the keys of the result are the union of the keys of the six series
  (the regression's without \<^verbatim>\<open>const\<close>), each once.
\<close>

theorem differing_key_sets_raise_nothing:
  "(''const'' \<notin> fst ` set coef \<longrightarrow>
      consensus_importance srt rf perm shap coef pc1 pc2 = Inl (KeyError ''const'')) \<and>
   (''const'' \<in> fst ` set coef \<and> sorts_descending_by snd srt \<and>
    (\<forall>s \<in> set [rf, perm, shap, coef, pc1, pc2]. distinct (map fst s)) \<longrightarrow>
      (\<exists>out. consensus_importance srt rf perm shap coef pc1 pc2 = Inr out \<and>
         distinct (map fst out) \<and>
         set (map fst out) = fst ` set rf \<union> fst ` set perm \<union> fst ` set shap \<union>
                     (fst ` set coef - {''const''}) \<union> fst ` set pc1 \<union> fst ` set pc2))"
proof -
  have err: "consensus_importance srt rf perm shap coef pc1 pc2 = Inl (KeyError ''const'')"
    if "''const'' \<notin> fst ` set coef"
    using that by (simp add: consensus_importance_def comparison_def drop_label_def)
  have ok: "\<exists>out. consensus_importance srt rf perm shap coef pc1 pc2 = Inr out \<and>
         distinct (map fst out) \<and>
         set (map fst out) = fst ` set rf \<union> fst ` set perm \<union> fst ` set shap \<union>
                     (fst ` set coef - {''const''}) \<union> fst ` set pc1 \<union> fst ` set pc2"
    if c: "''const'' \<in> fst ` set coef" and s: "sorts_descending_by snd srt"
      and d: "\<forall>s \<in> set [rf, perm, shap, coef, pc1, pc2]. distinct (map fst s)"
  proof -
    from comparison_distinct[OF c d] obtain idx where
      cmp: "comparison rf perm shap coef pc1 pc2 =
           Inr \<lparr>index = idx,
                RandomForest = map (map_of rf) idx,
                Permutation = map (map_of perm) idx,
                SHAP = map (map_of shap) idx,
                Regression = map (map_of (filter (\<lambda>kv. fst kv \<noteq> ''const'') coef)) idx,
                PCA_PC1 = map (map_of pc1) idx,
                PCA_PC2 = map (map_of pc2) idx\<rparr> \<and>
           distinct idx \<and>
           set idx = fst ` set rf \<union> fst ` set perm \<union> fst ` set shap \<union>
                     (fst ` set coef - {''const''}) \<union> fst ` set pc1 \<union> fst ` set pc2" ..
    define f where "f = \<lparr>index = idx,
                RandomForest = map (map_of rf) idx,
                Permutation = map (map_of perm) idx,
                SHAP = map (map_of shap) idx,
                Regression = map (map_of (filter (\<lambda>kv. fst kv \<noteq> ''const'') coef)) idx,
                PCA_PC1 = map (map_of pc1) idx,
                PCA_PC2 = map (map_of pc2) idx\<rparr>"
    have f: "comparison rf perm shap coef pc1 pc2 = Inr f" "index f = idx" "distinct idx"
      "set idx = fst ` set rf \<union> fst ` set perm \<union> fst ` set shap \<union>
                     (fst ` set coef - {''const''}) \<union> fst ` set pc1 \<union> fst ` set pc2"
      using cmp by (simp_all add: f_def)
    define out where "out = srt (zip idx (consensus (comparison_norm f)))"
    have len: "length (consensus (comparison_norm f)) = length idx"
      by (simp add: length_consensus comparison_norm_def f(2))
    have "consensus_importance srt rf perm shap coef pc1 pc2 = Inr out"
      by (simp add: consensus_importance_def f(1) out_def comparison_norm_def f(2))
    moreover from sorted_series_keys(2)[OF s len] have m: "mset (map fst out) = mset idx"
      by (simp add: out_def)
    then have "set (map fst out) = set idx" by (rule mset_eq_setD)
    moreover from f(3) have "distinct (map fst out)"
      by (simp only: mset_eq_imp_distinct_iff[OF m])
    ultimately show ?thesis using f(4) by (simp only:) blast
  qed
  from err ok show ?thesis by blast
qed

theorem differing_key_sets_raise_nothing_witness:
  "''const'' \<notin> fst ` set [(''age'', - 2), (''bmi'', 1 :: real)] \<and>
   consensus_importance (insort_desc snd) [(''age'', 1)] [(''age'', 1), (''bmi'', 3)]
     [(''age'', 2), (''bmi'', 5)] [(''age'', - 2), (''bmi'', 1)]
     [(''age'', 3 / 5), (''bmi'', 4 / 5)] [(''age'', 4 / 5), (''bmi'', - 3 / 5)]
   = Inl (KeyError ''const'') \<and>
   ''const'' \<in> fst ` set [(''const'', 9), (''age'', - 2), (''bmi'', 1 :: real)] \<and>
   sorts_descending_by snd (insort_desc (snd :: string \<times> cell \<Rightarrow> cell)) \<and>
   list_all (\<lambda>s. distinct (map fst s))
     [[(''age'', 1)], [(''age'', 1), (''bmi'', 3)], [(''age'', 2), (''bmi'', 5)],
      [(''const'', 9), (''age'', - 2), (''bmi'', 1)], [(''age'', 3 / 5), (''bmi'', 4 / 5)],
      [(''age'', 4 / 5), (''bmi'', - 3 / 5 :: real)]] \<and>
   (\<exists>out. consensus_importance (insort_desc snd) [(''age'', 1)] [(''age'', 1), (''bmi'', 3)]
       [(''age'', 2), (''bmi'', 5)] [(''const'', 9), (''age'', - 2), (''bmi'', 1)]
       [(''age'', 3 / 5), (''bmi'', 4 / 5)] [(''age'', 4 / 5), (''bmi'', - 3 / 5)] = Inr out \<and>
     set (map fst out) = {''age'', ''bmi''})"
proof -
  have c0: "''const'' \<notin> fst ` set [(''age'', - 2), (''bmi'', 1 :: real)]" by simp
  have c1: "''const'' \<in> fst ` set [(''const'', 9), (''age'', - 2), (''bmi'', 1 :: real)]" by simp
  have s: "sorts_descending_by snd (insort_desc (snd :: string \<times> cell \<Rightarrow> cell))"
    by (rule insort_desc_sorts)
  have d: "\<forall>s \<in> set [[(''age'', 1)], [(''age'', 1), (''bmi'', 3)], [(''age'', 2), (''bmi'', 5)],
       [(''const'', 9), (''age'', - 2), (''bmi'', 1)], [(''age'', 3 / 5), (''bmi'', 4 / 5)],
       [(''age'', 4 / 5), (''bmi'', - 3 / 5 :: real)]]. distinct (map fst s)"
    by simp
  note t0 = differing_key_sets_raise_nothing [of "[(''age'', - 2), (''bmi'', 1)]"
      "insort_desc snd" "[(''age'', 1)]" "[(''age'', 1), (''bmi'', 3)]"
      "[(''age'', 2), (''bmi'', 5)]" "[(''age'', 3 / 5), (''bmi'', 4 / 5)]"
      "[(''age'', 4 / 5), (''bmi'', - 3 / 5)]", THEN conjunct1, THEN mp, OF c0]
  note t1 = differing_key_sets_raise_nothing [of "[(''const'', 9), (''age'', - 2), (''bmi'', 1)]"
      "insort_desc snd" "[(''age'', 1)]" "[(''age'', 1), (''bmi'', 3)]"
      "[(''age'', 2), (''bmi'', 5)]" "[(''age'', 3 / 5), (''bmi'', 4 / 5)]"
      "[(''age'', 4 / 5), (''bmi'', - 3 / 5)]", THEN conjunct2, THEN mp, OF conjI [OF c1 conjI [OF s d]]]
  from t1 have e: "\<exists>out. consensus_importance (insort_desc snd) [(''age'', 1)]
       [(''age'', 1), (''bmi'', 3)]
       [(''age'', 2), (''bmi'', 5)] [(''const'', 9), (''age'', - 2), (''bmi'', 1)]
       [(''age'', 3 / 5), (''bmi'', 4 / 5)] [(''age'', 4 / 5), (''bmi'', - 3 / 5)] = Inr out \<and>
     set (map fst out) = {''age'', ''bmi''}"
    by auto
  from d have d': "list_all (\<lambda>s. distinct (map fst s))
     [[(''age'', 1)], [(''age'', 1), (''bmi'', 3)], [(''age'', 2), (''bmi'', 5)],
      [(''const'', 9), (''age'', - 2), (''bmi'', 1)], [(''age'', 3 / 5), (''bmi'', 4 / 5)],
      [(''age'', 4 / 5), (''bmi'', - 3 / 5 :: real)]]"
    by (simp only: list_all_iff)
  from c0 t0 c1 s d' e show ?thesis by (intro conjI)
qed

theorem value_error_counterexample:
  "fst ` set [(''age'', 1 :: real)] \<noteq> fst ` set [(''age'', 1), (''bmi'', 3 :: real)] \<and>
   consensus_importance (insort_desc snd) [(''age'', 1)] [(''age'', 1), (''bmi'', 3)]
     [(''age'', 2), (''bmi'', 5)] [(''const'', 9), (''age'', - 2), (''bmi'', 1)]
     [(''age'', 3 / 5), (''bmi'', 4 / 5)] [(''age'', 4 / 5), (''bmi'', - 3 / 5)]
   = Inr [(''bmi'', Some 1), (''age'', Some 0)]"
  by (simp add: consensus_importance_def comparison_def drop_label_def union_indexes_def
      align_def comparison_norm_def consensus_def min_max_scale_def col_min_def col_max_def
      nanmean_def insort_desc_def nan_last_desc_def upt_rec)


section \<open>The consensus of non-degenerate estimators\<close>

lemma full_column:
  assumes d: "distinct (map fst s)" and k: "fst ` set s = set idx"
  shows "set (dropna (map (map_of s) idx)) = snd ` set s"
proof -
  have "Some v \<in> set (map (map_of s) idx) \<longleftrightarrow> v \<in> snd ` set s" for v
  proof
    assume "Some v \<in> set (map (map_of s) idx)"
    then obtain key where "key \<in> set idx" "map_of s key = Some v" by force
    then have "(key, v) \<in> set s" by (simp add: map_of_SomeD)
    then show "v \<in> snd ` set s" by force
  next
    assume "v \<in> snd ` set s"
    then obtain key where kv: "(key, v) \<in> set s" by auto
    with d have "map_of s key = Some v" by simp
    moreover from kv k have "key \<in> set idx" by force
    ultimately show "Some v \<in> set (map (map_of s) idx)" by force
  qed
  then show ?thesis by (simp add: set_dropna)
qed

lemma scaled_column:
  assumes d: "distinct (map fst s)" and k: "fst ` set s = set idx"
    and nd: "\<exists>a \<in> set s. \<exists>b \<in> set s. snd a \<noteq> snd b" and i: "i < length idx"
  shows "\<exists>x. (idx ! i, x) \<in> set s \<and>
             min_max_scale (map (map_of s) idx) ! i = Some (spec_min_max s x) \<and>
             0 \<le> spec_min_max s x \<and> spec_min_max s x \<le> 1"
proof -
  define c where "c = map (map_of s) idx"
  define V where "V = snd ` set s"
  from nd obtain a b where ab: "a \<in> V" "b \<in> V" "a \<noteq> b" unfolding V_def by force
  have fin: "finite V" by (simp add: V_def)
  from i have "idx ! i \<in> set idx" by (rule nth_mem)
  with k have "idx ! i \<in> fst ` set s" by simp
  then obtain x where x: "(idx ! i, x) \<in> set s" by force
  with d have mo: "map_of s (idx ! i) = Some x" by simp
  have xV: "x \<in> V" using x by (force simp: V_def)
  have sd: "set (dropna c) = V" unfolding c_def V_def by (rule full_column[OF d k])
  with ab(1) have ne: "dropna c \<noteq> []" by auto
  have mn: "col_min c = Some (Min V)" and mx: "col_max c = Some (Max V)"
    using ne sd by (simp_all add: col_min_def col_max_def)
  have "Min V \<le> a" "Min V \<le> b" "a \<le> Max V" "b \<le> Max V"
    using fin ab by simp_all
  with ab(3) have lt: "Min V < Max V" by linarith
  have bx: "Min V \<le> x" "x \<le> Max V" using fin xV by simp_all
  have ci: "c ! i = Some x" using i mo by (simp add: c_def)
  have "min_max_scale c ! i = fdiv (fsub (c ! i) (col_min c)) (fsub (col_max c) (col_min c))"
    using i by (simp add: min_max_scale_def c_def)
  then have v: "min_max_scale c ! i = Some ((x - Min V) / (Max V - Min V))"
    using lt by (simp add: ci mn mx)
  have r: "0 \<le> (x - Min V) / (Max V - Min V)" "(x - Min V) / (Max V - Min V) \<le> 1"
    using lt bx by simp_all
  from x v r show ?thesis unfolding spec_min_max_def c_def V_def by blast
qed

lemma nanmean_four:
  "nanmean [Some a, Some b, Some c, Some d] = Some ((a + b + c + d) / 4)"
  by (simp add: nanmean_def)


text \<open>
  C1, as the notebook computes it. Take four estimator series and the two PCA loading
  series, none repeating a label, the four estimators with the same key set \<open>K\<close> (the
  regression with its \<^verbatim>\<open>const\<close> row besides), the loadings with keys in \<open>K\<close>, and each
  estimator with at least two different scores. Then the aggregator returns a result
  whose keys are exactly \<open>K\<close>, each once; the value of a feature is the arithmetic mean
  of its four min-max-normalized scores, the loadings taking no part; every value lies
  in [0, 1]; and the result is in descending order of value. The order of features with
  equal values is that of the descending sort, about which nothing is assumed.
\<close>

theorem consensus_of_nondegenerate_estimators:
  assumes srt: "sorts_descending_by snd srt"
    and dist: "\<forall>s \<in> set [rf, perm, shap, coef, pc1, pc2]. distinct (map fst s)"
    and keys: "fst ` set rf = K" "fst ` set perm = K" "fst ` set shap = K"
      "fst ` set coef = insert ''const'' K" "''const'' \<notin> K"
      "fst ` set pc1 \<subseteq> K" "fst ` set pc2 \<subseteq> K"
    and nondeg: "\<forall>s \<in> set [rf, perm, shap, filter (\<lambda>kv. fst kv \<noteq> ''const'') coef].
                   \<exists>a \<in> set s. \<exists>b \<in> set s. snd a \<noteq> snd b"
  shows "\<exists>out. consensus_importance srt rf perm shap coef pc1 pc2 = Inr out \<and>
           distinct (map fst out) \<and> set (map fst out) = K \<and>
           (\<forall>kv \<in> set out. \<exists>x1 x2 x3 x4.
              (fst kv, x1) \<in> set rf \<and> (fst kv, x2) \<in> set perm \<and>
              (fst kv, x3) \<in> set shap \<and> (fst kv, x4) \<in> set coef \<and>
              snd kv = Some ((spec_min_max rf x1 + spec_min_max perm x2 + spec_min_max shap x3
                    + spec_min_max (filter (\<lambda>kv. fst kv \<noteq> ''const'') coef) x4) / 4)) \<and>
           (\<forall>kv \<in> set out. \<exists>c. snd kv = Some c \<and> 0 \<le> c \<and> c \<le> 1) \<and>
           sorted_wrt (\<lambda>a b. \<exists>x y. snd a = Some x \<and> snd b = Some y \<and> y \<le> x) out"
proof -
  define reg where "reg = filter (\<lambda>kv. fst kv \<noteq> ''const'') coef"
  have c: "''const'' \<in> fst ` set coef" using keys(4) by simp
  from comparison_distinct[OF c dist] obtain idx where
    cmp: "comparison rf perm shap coef pc1 pc2 =
           Inr \<lparr>index = idx,
                RandomForest = map (map_of rf) idx,
                Permutation = map (map_of perm) idx,
                SHAP = map (map_of shap) idx,
                Regression = map (map_of (filter (\<lambda>kv. fst kv \<noteq> ''const'') coef)) idx,
                PCA_PC1 = map (map_of pc1) idx,
                PCA_PC2 = map (map_of pc2) idx\<rparr> \<and>
           distinct idx \<and>
           set idx = fst ` set rf \<union> fst ` set perm \<union> fst ` set shap \<union>
                     (fst ` set coef - {''const''}) \<union> fst ` set pc1 \<union> fst ` set pc2" ..
  define f where "f = \<lparr>index = idx,
                RandomForest = map (map_of rf) idx,
                Permutation = map (map_of perm) idx,
                SHAP = map (map_of shap) idx,
                Regression = map (map_of reg) idx,
                PCA_PC1 = map (map_of pc1) idx,
                PCA_PC2 = map (map_of pc2) idx\<rparr>"
  have f: "comparison rf perm shap coef pc1 pc2 = Inr f" and di: "distinct idx"
    using cmp by (simp_all add: f_def reg_def)
  have si: "set idx = K" using cmp keys by auto
  have kreg: "fst ` set reg = set idx"
  proof -
    have "fst ` set reg = fst ` set coef - {''const''}" by (auto simp: reg_def)
    with keys(4,5) si show ?thesis by auto
  qed
  have d: "distinct (map fst rf)" "distinct (map fst perm)" "distinct (map fst shap)"
    "distinct (map fst coef)"
    using dist by simp_all
  have dreg: "distinct (map fst reg)"
    unfolding reg_def using d(4) by (rule distinct_map_filter)
  have nd: "\<exists>a \<in> set rf. \<exists>b \<in> set rf. snd a \<noteq> snd b"
    "\<exists>a \<in> set perm. \<exists>b \<in> set perm. snd a \<noteq> snd b"
    "\<exists>a \<in> set shap. \<exists>b \<in> set shap. snd a \<noteq> snd b"
    "\<exists>a \<in> set reg. \<exists>b \<in> set reg. snd a \<noteq> snd b"
    using nondeg by (simp_all add: reg_def)
  define cons where "cons = consensus (comparison_norm f)"
  have len: "length cons = length idx"
    by (simp add: cons_def length_consensus comparison_norm_def f_def)
  have row: "\<exists>x1 x2 x3 x4.
              (idx ! i, x1) \<in> set rf \<and> (idx ! i, x2) \<in> set perm \<and>
              (idx ! i, x3) \<in> set shap \<and> (idx ! i, x4) \<in> set coef \<and>
              cons ! i = Some ((spec_min_max rf x1 + spec_min_max perm x2 + spec_min_max shap x3
                    + spec_min_max reg x4) / 4) \<and>
              0 \<le> (spec_min_max rf x1 + spec_min_max perm x2 + spec_min_max shap x3
                    + spec_min_max reg x4) / 4 \<and>
              (spec_min_max rf x1 + spec_min_max perm x2 + spec_min_max shap x3
                    + spec_min_max reg x4) / 4 \<le> 1"
    if i: "i < length idx" for i
  proof -
    from scaled_column[OF d(1) _ nd(1) i] keys(1) si obtain x1 where
      x1: "(idx ! i, x1) \<in> set rf"
      "min_max_scale (map (map_of rf) idx) ! i = Some (spec_min_max rf x1)"
      "0 \<le> spec_min_max rf x1" "spec_min_max rf x1 \<le> 1" by auto
    from scaled_column[OF d(2) _ nd(2) i] keys(2) si obtain x2 where
      x2: "(idx ! i, x2) \<in> set perm"
      "min_max_scale (map (map_of perm) idx) ! i = Some (spec_min_max perm x2)"
      "0 \<le> spec_min_max perm x2" "spec_min_max perm x2 \<le> 1" by auto
    from scaled_column[OF d(3) _ nd(3) i] keys(3) si obtain x3 where
      x3: "(idx ! i, x3) \<in> set shap"
      "min_max_scale (map (map_of shap) idx) ! i = Some (spec_min_max shap x3)"
      "0 \<le> spec_min_max shap x3" "spec_min_max shap x3 \<le> 1" by auto
    from scaled_column[OF dreg kreg nd(4) i] obtain x4 where
      x4: "(idx ! i, x4) \<in> set reg"
      "min_max_scale (map (map_of reg) idx) ! i = Some (spec_min_max reg x4)"
      "0 \<le> spec_min_max reg x4" "spec_min_max reg x4 \<le> 1" by auto
    from x4(1) have x4c: "(idx ! i, x4) \<in> set coef" by (simp add: reg_def)
    have "cons ! i = nanmean [Some (spec_min_max rf x1), Some (spec_min_max perm x2),
                              Some (spec_min_max shap x3), Some (spec_min_max reg x4)]"
      using i by (simp add: cons_def consensus_def comparison_norm_def f_def x1(2) x2(2) x3(2) x4(2))
    then have v: "cons ! i = Some ((spec_min_max rf x1 + spec_min_max perm x2
                    + spec_min_max shap x3 + spec_min_max reg x4) / 4)"
      by (simp only: nanmean_four)
    have r: "0 \<le> (spec_min_max rf x1 + spec_min_max perm x2 + spec_min_max shap x3
                    + spec_min_max reg x4) / 4"
      "(spec_min_max rf x1 + spec_min_max perm x2 + spec_min_max shap x3
                    + spec_min_max reg x4) / 4 \<le> 1"
      using x1(3,4) x2(3,4) x3(3,4) x4(3,4) by simp_all
    from x1(1) x2(1) x3(1) x4c v r show ?thesis by (intro exI conjI)
  qed
  define out where "out = srt (zip idx cons)"
  have res: "consensus_importance srt rf perm shap coef pc1 pc2 = Inr out"
    by (simp add: consensus_importance_def f out_def cons_def) (simp add: comparison_norm_def f_def)
  from sorted_series_keys[OF srt len]
  have p: "mset out = mset (zip idx cons)" and m: "mset (map fst out) = mset idx"
    and so: "sorted_wrt (\<lambda>a b. nan_last_desc (snd a) (snd b)) out"
    by (simp_all add: out_def)
  from m have sk: "set (map fst out) = K" using si by (metis mset_eq_setD)
  from di have dk: "distinct (map fst out)" by (simp only: mset_eq_imp_distinct_iff[OF m])
  have elem: "\<exists>i < length idx. fst kv = idx ! i \<and> snd kv = cons ! i" if "kv \<in> set out" for kv
  proof -
    from that p have "kv \<in> set (zip idx cons)" by (metis set_mset_mset)
    then obtain n where "idx ! n = fst kv" "cons ! n = snd kv" "n < length idx"
      unfolding in_set_zip by blast
    then show ?thesis by (intro exI[of _ n]) simp
  qed
  have vals: "\<forall>kv \<in> set out. \<exists>x1 x2 x3 x4.
              (fst kv, x1) \<in> set rf \<and> (fst kv, x2) \<in> set perm \<and>
              (fst kv, x3) \<in> set shap \<and> (fst kv, x4) \<in> set coef \<and>
              snd kv = Some ((spec_min_max rf x1 + spec_min_max perm x2 + spec_min_max shap x3
                    + spec_min_max reg x4) / 4)"
  proof
    fix kv assume "kv \<in> set out"
    from elem[OF this] obtain i where i: "i < length idx" "fst kv = idx ! i" "snd kv = cons ! i"
      by blast
    from row[OF i(1)] show "\<exists>x1 x2 x3 x4.
              (fst kv, x1) \<in> set rf \<and> (fst kv, x2) \<in> set perm \<and>
              (fst kv, x3) \<in> set shap \<and> (fst kv, x4) \<in> set coef \<and>
              snd kv = Some ((spec_min_max rf x1 + spec_min_max perm x2 + spec_min_max shap x3
                    + spec_min_max reg x4) / 4)"
      unfolding i(2,3) by blast
  qed
  have unit: "\<forall>kv \<in> set out. \<exists>c. snd kv = Some c \<and> 0 \<le> c \<and> c \<le> 1"
  proof
    fix kv assume "kv \<in> set out"
    from elem[OF this] obtain i where i: "i < length idx" "fst kv = idx ! i" "snd kv = cons ! i"
      by blast
    from row[OF i(1)] show "\<exists>c. snd kv = Some c \<and> 0 \<le> c \<and> c \<le> 1"
      unfolding i(3) by blast
  qed
  have sorted: "sorted_wrt (\<lambda>a b. \<exists>x y. snd a = Some x \<and> snd b = Some y \<and> y \<le> x) out"
  proof (rule sorted_wrt_mono_rel[OF _ so])
    fix a b assume ab: "a \<in> set out" "b \<in> set out" and n: "nan_last_desc (snd a) (snd b)"
    from unit ab obtain x y where "snd a = Some x" "snd b = Some y" by blast
    with n show "\<exists>x y. snd a = Some x \<and> snd b = Some y \<and> y \<le> x"
      by (simp add: nan_last_desc_def)
  qed
  from res dk sk vals unit sorted have
    "consensus_importance srt rf perm shap coef pc1 pc2 = Inr out \<and>
           distinct (map fst out) \<and> set (map fst out) = K \<and>
           (\<forall>kv \<in> set out. \<exists>x1 x2 x3 x4.
              (fst kv, x1) \<in> set rf \<and> (fst kv, x2) \<in> set perm \<and>
              (fst kv, x3) \<in> set shap \<and> (fst kv, x4) \<in> set coef \<and>
              snd kv = Some ((spec_min_max rf x1 + spec_min_max perm x2 + spec_min_max shap x3
                    + spec_min_max (filter (\<lambda>kv. fst kv \<noteq> ''const'') coef) x4) / 4)) \<and>
           (\<forall>kv \<in> set out. \<exists>c. snd kv = Some c \<and> 0 \<le> c \<and> c \<le> 1) \<and>
           sorted_wrt (\<lambda>a b. \<exists>x y. snd a = Some x \<and> snd b = Some y \<and> y \<le> x) out"
    unfolding reg_def by (intro conjI)
  then show ?thesis by (rule exI[of _ out])
qed


theorem consensus_of_nondegenerate_estimators_witness:
  "sorts_descending_by snd (insort_desc (snd :: string \<times> cell \<Rightarrow> cell)) \<and>
   list_all (\<lambda>s. distinct (map fst s))
     [[(''age'', 1 / 4), (''bmi'', 3 / 4)], [(''age'', 1), (''bmi'', 3)],
      [(''age'', 2), (''bmi'', 5)], [(''const'', 9), (''age'', - 2), (''bmi'', 1)],
      [(''age'', 3 / 5), (''bmi'', 4 / 5)], [(''age'', 4 / 5), (''bmi'', - 3 / 5 :: real)]] \<and>
   fst ` set [(''const'', 9), (''age'', - 2), (''bmi'', 1 :: real)]
     = insert ''const'' {''age'', ''bmi''} \<and>
   ''const'' \<notin> {''age'', ''bmi''} \<and>
   list_all (\<lambda>s. \<exists>a \<in> set s. \<exists>b \<in> set s. snd a \<noteq> snd b)
     [[(''age'', 1 / 4), (''bmi'', 3 / 4)], [(''age'', 1), (''bmi'', 3)],
      [(''age'', 2), (''bmi'', 5)],
      filter (\<lambda>kv. fst kv \<noteq> ''const'') [(''const'', 9), (''age'', - 2), (''bmi'', 1 :: real)]] \<and>
   consensus_importance (insort_desc snd) [(''age'', 1 / 4), (''bmi'', 3 / 4)] [(''age'', 1), (''bmi'', 3)]
     [(''age'', 2), (''bmi'', 5)] [(''const'', 9), (''age'', - 2), (''bmi'', 1)]
     [(''age'', 3 / 5), (''bmi'', 4 / 5)] [(''age'', 4 / 5), (''bmi'', - 3 / 5)]
   = Inr [(''bmi'', Some 1), (''age'', Some 0)] \<and>
   set (map fst [(''bmi'', Some 1), (''age'', Some (0 :: real))]) = {''age'', ''bmi''}"
proof -
  have s: "sorts_descending_by snd (insort_desc (snd :: string \<times> cell \<Rightarrow> cell))"
    by (rule insort_desc_sorts)
  have d: "\<forall>s \<in> set [[(''age'', 1 / 4), (''bmi'', 3 / 4)], [(''age'', 1), (''bmi'', 3)],
       [(''age'', 2), (''bmi'', 5)], [(''const'', 9), (''age'', - 2), (''bmi'', 1)],
       [(''age'', 3 / 5), (''bmi'', 4 / 5)], [(''age'', 4 / 5), (''bmi'', - 3 / 5 :: real)]].
      distinct (map fst s)"
    by simp
  have k: "fst ` set [(''age'', 1 / 4), (''bmi'', 3 / 4 :: real)] = {''age'', ''bmi''}"
    "fst ` set [(''age'', 1), (''bmi'', 3 :: real)] = {''age'', ''bmi''}"
    "fst ` set [(''age'', 2), (''bmi'', 5 :: real)] = {''age'', ''bmi''}"
    "fst ` set [(''const'', 9), (''age'', - 2), (''bmi'', 1 :: real)]
       = insert ''const'' {''age'', ''bmi''}"
    "''const'' \<notin> {''age'', ''bmi''}"
    "fst ` set [(''age'', 3 / 5), (''bmi'', 4 / 5 :: real)] \<subseteq> {''age'', ''bmi''}"
    "fst ` set [(''age'', 4 / 5), (''bmi'', - 3 / 5 :: real)] \<subseteq> {''age'', ''bmi''}"
    by simp_all
  have n1: "\<exists>a \<in> set [(''age'', 1 / 4), (''bmi'', 3 / 4 :: real)].
              \<exists>b \<in> set [(''age'', 1 / 4), (''bmi'', 3 / 4)]. snd a \<noteq> snd b"
    by (rule bexI[of _ "(''age'', 1 / 4)"], rule bexI[of _ "(''bmi'', 3 / 4)"]) simp_all
  have n2: "\<exists>a \<in> set [(''age'', 1), (''bmi'', 3 :: real)].
              \<exists>b \<in> set [(''age'', 1), (''bmi'', 3)]. snd a \<noteq> snd b"
    by (rule bexI[of _ "(''age'', 1)"], rule bexI[of _ "(''bmi'', 3)"]) simp_all
  have n3: "\<exists>a \<in> set [(''age'', 2), (''bmi'', 5 :: real)].
              \<exists>b \<in> set [(''age'', 2), (''bmi'', 5)]. snd a \<noteq> snd b"
    by (rule bexI[of _ "(''age'', 2)"], rule bexI[of _ "(''bmi'', 5)"]) simp_all
  have n4: "\<exists>a \<in> set (filter (\<lambda>kv. fst kv \<noteq> ''const'')
                  [(''const'', 9), (''age'', - 2), (''bmi'', 1 :: real)]).
              \<exists>b \<in> set (filter (\<lambda>kv. fst kv \<noteq> ''const'')
                  [(''const'', 9), (''age'', - 2), (''bmi'', 1)]). snd a \<noteq> snd b"
    by (rule bexI[of _ "(''age'', - 2)"], rule bexI[of _ "(''bmi'', 1)"]) simp_all
  have nl: "list_all (\<lambda>s. \<exists>a \<in> set s. \<exists>b \<in> set s. snd a \<noteq> snd b)
     [[(''age'', 1 / 4), (''bmi'', 3 / 4)], [(''age'', 1), (''bmi'', 3)],
      [(''age'', 2), (''bmi'', 5)],
      filter (\<lambda>kv. fst kv \<noteq> ''const'') [(''const'', 9), (''age'', - 2), (''bmi'', 1 :: real)]]"
    using n1 n2 n3 n4 by (simp only: list.pred_inject simp_thms)
  have n: "\<forall>s \<in> set [[(''age'', 1 / 4), (''bmi'', 3 / 4)], [(''age'', 1), (''bmi'', 3)],
       [(''age'', 2), (''bmi'', 5)],
       filter (\<lambda>kv. fst kv \<noteq> ''const'') [(''const'', 9), (''age'', - 2), (''bmi'', 1 :: real)]].
      \<exists>a \<in> set s. \<exists>b \<in> set s. snd a \<noteq> snd b"
    using nl by (simp only: list_all_iff)
  have e: "consensus_importance (insort_desc snd) [(''age'', 1 / 4), (''bmi'', 3 / 4)]
     [(''age'', 1), (''bmi'', 3)]
     [(''age'', 2), (''bmi'', 5)] [(''const'', 9), (''age'', - 2), (''bmi'', 1)]
     [(''age'', 3 / 5), (''bmi'', 4 / 5)] [(''age'', 4 / 5), (''bmi'', - 3 / 5)]
   = Inr [(''bmi'', Some 1), (''age'', Some 0)]"
    by (simp add: consensus_importance_def comparison_def drop_label_def union_indexes_def
      align_def comparison_norm_def consensus_def min_max_scale_def col_min_def col_max_def
      nanmean_def insort_desc_def nan_last_desc_def upt_rec)
  from consensus_of_nondegenerate_estimators [OF s d k n]
  have "set (map fst [(''bmi'', Some 1), (''age'', Some (0 :: real))]) = {''age'', ''bmi''}"
    unfolding e by auto
  moreover from d have "list_all (\<lambda>s. distinct (map fst s))
     [[(''age'', 1 / 4), (''bmi'', 3 / 4)], [(''age'', 1), (''bmi'', 3)],
      [(''age'', 2), (''bmi'', 5)], [(''const'', 9), (''age'', - 2), (''bmi'', 1)],
      [(''age'', 3 / 5), (''bmi'', 4 / 5)], [(''age'', 4 / 5), (''bmi'', - 3 / 5 :: real)]]"
    by (simp only: list_all_iff)
  moreover from n have "list_all (\<lambda>s. \<exists>a \<in> set s. \<exists>b \<in> set s. snd a \<noteq> snd b)
     [[(''age'', 1 / 4), (''bmi'', 3 / 4)], [(''age'', 1), (''bmi'', 3)],
      [(''age'', 2), (''bmi'', 5)],
      filter (\<lambda>kv. fst kv \<noteq> ''const'') [(''const'', 9), (''age'', - 2), (''bmi'', 1 :: real)]]"
    by (simp only: list_all_iff)
  ultimately show ?thesis using s k(4,5) e by (intro conjI)
qed

theorem unit_interval_counterexample:
  "consensus_importance (insort_desc snd) [(''age'', 1 / 2), (''bmi'', 1 / 2)] [(''age'', 3), (''bmi'', 3)]
     [(''age'', 2), (''bmi'', 2)] [(''const'', 9), (''age'', 1), (''bmi'', 1)]
     [(''age'', 3 / 5), (''bmi'', 4 / 5)] [(''age'', 4 / 5), (''bmi'', - 3 / 5)]
   = Inr [(''age'', None), (''bmi'', None)] \<and>
   consensus_importance (insort_desc snd) [(''age'', 1 / 2), (''bmi'', 1 / 2)] [(''age'', 1), (''bmi'', 3)]
     [(''age'', 2), (''bmi'', 5)] [(''const'', 9), (''age'', - 2), (''bmi'', 1)]
     [(''age'', 3 / 5), (''bmi'', 4 / 5)] [(''age'', 4 / 5), (''bmi'', - 3 / 5)]
   = Inr [(''bmi'', Some 1), (''age'', Some 0)] \<and>
   (1 :: real) \<noteq> (1 / 2 + 1 + 1 + 1) / 4 \<and> (0 :: real) \<noteq> (1 / 2 + 0 + 0 + 0) / 4"
  by (simp add: consensus_importance_def comparison_def drop_label_def union_indexes_def
      align_def comparison_norm_def consensus_def min_max_scale_def col_min_def col_max_def
      nanmean_def insort_desc_def nan_last_desc_def upt_rec)


section \<open>Facts about rounding\<close>











lemma binade_eqI:
  assumes "2 powi k \<le> \<bar>x\<bar>" "\<bar>x\<bar> < 2 powi (k + 1)"
  shows "binade x = k"
proof -
  have pos: "0 < \<bar>x\<bar>" using assms(1) by (smt (verit) zero_less_power_int)
  have e: "(2::real) powr real_of_int k = 2 powi k" "(2::real) powr (real_of_int k + 1) = 2 powi (k + 1)"
    using powr_real_of_int'[of 2 k] powr_real_of_int'[of 2 "k + 1"] by simp_all
  show ?thesis
    unfolding binade_def using floor_log_eq_powr_iff[OF pos, of 2 k] assms by (simp add: e)
qed







lemma rne_zero: "round_nearest_even 0 = 0"
  by (simp add: round_nearest_even_def)


lemma rne_evalI:
  assumes "2 powi k \<le> \<bar>x\<bar>" "\<bar>x\<bar> < 2 powi (k + 1)" "q = max (k - 52) (- 1074)"
    and "of_int m \<le> x / 2 powi q" "x / 2 powi q < of_int m + 1"
    and "x / 2 powi q - of_int m < 1 / 2 \<and> n = m \<or>
         1 / 2 < x / 2 powi q - of_int m \<and> n = m + 1 \<or>
         x / 2 powi q - of_int m = 1 / 2 \<and> (even m \<and> n = m \<or> odd m \<and> n = m + 1)"
  shows "round_nearest_even x = of_int n * 2 powi q"
proof -
  have b: "binade x = k" using assms(1,2) by (rule binade_eqI)
  have q: "quantum x = q" by (simp add: quantum_def b assms(3))
  have f: "\<lfloor>x / 2 powi q\<rfloor> = m" using assms(4,5) by (simp add: floor_unique)
  have "round_even (x / 2 powi q) = n" using assms(6) by (auto simp: round_even_def f)
  moreover have "x \<noteq> 0" using assms(1) by (smt (verit) zero_less_power_int abs_zero)
  ultimately show ?thesis by (simp add: round_nearest_even_def q)
qed

lemma overflow_bound_pos: "1 < overflow_bound"
  unfolding overflow_bound_def by (rule one_less_power) simp_all


lemma fl_round_finI:
  "- overflow_bound < round_nearest_even x \<Longrightarrow> round_nearest_even x < overflow_bound \<Longrightarrow>
   fl_round x = Fin (round_nearest_even x)"
  by (simp add: fl_round_def)


lemma fl_round_zero: "fl_round 0 = Fin 0"
  using overflow_bound_pos by (simp add: fl_round_def rne_zero)

lemma fl_round_evalI:
  assumes "2 powi k \<le> \<bar>x\<bar>" "\<bar>x\<bar> < 2 powi (k + 1)" "q = max (k - 52) (- 1074)"
    and "of_int m \<le> x / 2 powi q" "x / 2 powi q < of_int m + 1"
    and "x / 2 powi q - of_int m < 1 / 2 \<and> n = m \<or>
         1 / 2 < x / 2 powi q - of_int m \<and> n = m + 1 \<or>
         x / 2 powi q - of_int m = 1 / 2 \<and> (even m \<and> n = m \<or> odd m \<and> n = m + 1)"
    and "\<bar>real_of_int n * 2 powi q\<bar> < 2 ^ 1024"
  shows "fl_round x = Fin (of_int n * 2 powi q)"
proof -
  have r: "round_nearest_even x = of_int n * 2 powi q" by (rule rne_evalI[OF assms(1-6)])
  from assms(7) have "\<bar>round_nearest_even x\<bar> < overflow_bound"
    by (simp only: r overflow_bound_def)
  then have "fl_round x = Fin (round_nearest_even x)" by (intro fl_round_finI) linarith+
  then show ?thesis by (simp only: r)
qed






section \<open>Some roundings\<close>

text \<open>Floats that are their own rounding.\<close>

lemma fl_round_pow2_examples:
  "fl_round 1 = Fin 1" "fl_round (1 / 2) = Fin (1 / 2)" "fl_round (1 / 4) = Fin (1 / 4)"
  "fl_round 3 = Fin 3" "fl_round 6 = Fin 6"
  using fl_round_evalI[of 0 1 "- 52" "2 ^ 52" "2 ^ 52"]
    fl_round_evalI[of "- 1" "1 / 2" "- 53" "2 ^ 52" "2 ^ 52"]
    fl_round_evalI[of "- 2" "1 / 4" "- 54" "2 ^ 52" "2 ^ 52"]
    fl_round_evalI[of 1 3 "- 51" "3 * 2 ^ 51" "3 * 2 ^ 51"]
    fl_round_evalI[of 2 6 "- 50" "6 * 2 ^ 50" "6 * 2 ^ 50"]
  by simp_all

lemma fl_round_small_examples:
  "fl_round (- 1) = Fin (- 1)"
  using fl_round_evalI[of 0 "- 1" "- 52" "- (2 ^ 52)" "- (2 ^ 52)"] by simp



section \<open>Min-max scaling in floats\<close>




section \<open>Standardization of a constant column\<close>

text \<open>
  C6, as the notebook computes it. Line 386 raises nothing and drops no column: the
  standardized table has the columns of the input, under the same names, in the same
  order and of the same lengths. When a column holds one value in every row, and
  \<^verbatim>\<open>X.mean()\<close> gives that value and \<^verbatim>\<open>X.std()\<close> gives 0 (or NaN, as it does for a
  single row), the column is NaN in every row of the table handed to the regression.
\<close>

theorem constant_column_is_kept:
  assumes "(name, xs) \<in> set X" "\<forall>x \<in> set xs. x = c"
    and "X_mean name = Fin c" "X_std name = Fin 0 \<or> X_std name = NaN"
  shows "(name, replicate (length xs) NaN) \<in> set (X_standardized X_mean X_std X) \<and>
         map fst (X_standardized X_mean X_std X) = map fst X \<and>
         map (\<lambda>col. length (snd col)) (X_standardized X_mean X_std X)
           = map (\<lambda>col. length (snd col)) X"
proof -
  have cell: "fl_div (fl_sub (Fin x) (X_mean name)) (X_std name) = NaN" if "x \<in> set xs" for x
    using that assms(2,3,4) by (auto simp: fl_round_zero)
  then have "map (\<lambda>x. fl_div (fl_sub (Fin x) (X_mean name)) (X_std name)) xs
      = replicate (length xs) NaN"
    by (simp add: map_replicate_const[symmetric] cong: map_cong)
  then have eq: "(name, replicate (length xs) NaN)
      = (\<lambda>(name, xs). (name, map (\<lambda>x. fl_div (fl_sub (Fin x) (X_mean name)) (X_std name)) xs))
          (name, xs)"
    by simp
  have "(name, replicate (length xs) NaN) \<in> set (X_standardized X_mean X_std X)"
    unfolding X_standardized_def set_map using eq assms(1) by (rule image_eqI)
  moreover have "map fst (X_standardized X_mean X_std X) = map fst X"
    by (simp add: X_standardized_def comp_def case_prod_unfold)
  moreover have "map (\<lambda>col. length (snd col)) (X_standardized X_mean X_std X)
           = map (\<lambda>col. length (snd col)) X"
    by (simp add: X_standardized_def comp_def case_prod_unfold)
  ultimately show ?thesis by (intro conjI)
qed

theorem constant_column_is_kept_witness:
  "(''children'', [5, 5, 5]) \<in> set [(''age'', [1, 2, 3]), (''children'', [5, 5, 5 :: real])] \<and>
   list_all (\<lambda>x. x = 5) [5, 5, 5 :: real] \<and>
   (if ''children'' = ''age'' then Fin 2 else Fin 5) = Fin 5 \<and>
   (if ''children'' = ''age'' then Fin 1 else Fin 0) = Fin 0 \<and>
   (''children'', replicate (length [5, 5, 5 :: real]) NaN)
     \<in> set (X_standardized (\<lambda>n. if n = ''age'' then Fin 2 else Fin 5)
               (\<lambda>n. if n = ''age'' then Fin 1 else Fin 0)
               [(''age'', [1, 2, 3]), (''children'', [5, 5, 5])]) \<and>
   map fst (X_standardized (\<lambda>n. if n = ''age'' then Fin 2 else Fin 5)
               (\<lambda>n. if n = ''age'' then Fin 1 else Fin 0)
               [(''age'', [1, 2, 3]), (''children'', [5, 5, 5])])
     = [''age'', ''children'']"
  using constant_column_is_kept [of "''children''" "[5, 5, 5]"
      "[(''age'', [1, 2, 3]), (''children'', [5, 5, 5])]" 5
      "\<lambda>n. if n = ''age'' then Fin 2 else Fin 5"
      "\<lambda>n. if n = ''age'' then Fin 1 else Fin 0"]
  by simp

text \<open>
  A table whose column \<^verbatim>\<open>children\<close> is 5 in every row: its mean is 5 and its standard
  deviation is 0, the column \<^verbatim>\<open>age\<close> has mean 2 and standard deviation 1. Nothing is
  raised, no column is dropped, and the NaN column is part of the result.
\<close>

theorem data_error_counterexample:
  "X_standardized (\<lambda>n. if n = ''age'' then Fin 2 else Fin 5)
     (\<lambda>n. if n = ''age'' then Fin 1 else Fin 0)
     [(''age'', [1, 2, 3]), (''children'', [5, 5, 5])]
   = [(''age'', [Fin (- 1), Fin 0, Fin 1]), (''children'', [NaN, NaN, NaN])]"
  using fl_round_small_examples fl_round_pow2_examples(1)
  by (simp add: X_standardized_def fl_round_zero)

text \<open>
  The mean of a constant column need not be its value. For six rows of the float
  nearest to \<open>0.1\<close>, summing the rows in order and rounding each sum gives a mean one
  unit in the last place below the value, and a standard deviation near
  \<open>1.5 * 10^-17\<close>; with these, line 386 yields the number \<open>0.9128709291752769\<close> in
  every row, not NaN.
\<close>

lemma rounded_mean_example:
  "X_standardized (\<lambda>n. Fin (7205759403792793 / 2 ^ 56)) (\<lambda>n. Fin (4933446211765362 / 2 ^ 108))
     [(''bmi'', replicate 6 (3602879701896397 / 2 ^ 55))]
   = [(''bmi'', replicate 6 (Fin (8222410352942271 / 2 ^ 53)))]"
proof -
  have a: "fl_round (3602879701896397 / 2 ^ 55 - 7205759403792793 / 2 ^ 56) = Fin (1 / 2 ^ 56)"
    using fl_round_evalI[of "- 56" "3602879701896397 / 2 ^ 55 - 7205759403792793 / 2 ^ 56"
        "- 108" "2 ^ 52" "2 ^ 52"]
    by simp
  have b: "fl_round (1 / 2 ^ 56 / (4933446211765362 / 2 ^ 108)) = Fin (8222410352942271 / 2 ^ 53)"
    using fl_round_evalI[of "- 1" "1 / 2 ^ 56 / (4933446211765362 / 2 ^ 108)"
        "- 53" 8222410352942271 8222410352942271]
    by simp
  show ?thesis
    using a b by (simp add: X_standardized_def)
qed

end
